theory Spec2Isabelle
  imports Complex_Main "HOL-Library.AList" "HOL-Library.Log_Nat"
begin

text \<open>
  A verification development for the parking allocation engine: the data model of
  \<open>types.ts\<close> and the class \<open>ParkingSystem\<close> of \<open>parking-system.ts\<close> as HOL
  definitions, operation by operation, followed by the properties of allocation, the
  transition guard, rollback and zone utilization.
\<close>

section \<open>Data model (types.ts)\<close>

text \<open>
  The request lifecycle states and the table \<open>VALID_TRANSITIONS\<close>.
\<close>

datatype RequestState = REQUESTED | ALLOCATED | OCCUPIED | RELEASED | CANCELLED

fun VALID_TRANSITIONS :: "RequestState \<Rightarrow> RequestState list" where
  "VALID_TRANSITIONS REQUESTED = [ALLOCATED, CANCELLED]"
| "VALID_TRANSITIONS ALLOCATED = [OCCUPIED, CANCELLED]"
| "VALID_TRANSITIONS OCCUPIED = [RELEASED]"
| "VALID_TRANSITIONS RELEASED = []"
| "VALID_TRANSITIONS CANCELLED = []"

text \<open>
  Slots are JavaScript objects that the engine mutates in place (\<open>isAvailable\<close>) through
  references obtained from two different traversals (\<open>getAvailableSlotsInZone\<close> and
  \<open>findSlot\<close>). An object is therefore modelled by its address in a slot store, and an area
  holds the addresses of its slots in declared order. Field names carry a prefix where the
  TypeScript name \<open>id\<close>, \<open>name\<close> or \<open>zoneId\<close> occurs in several interfaces.
\<close>

type_synonym slot_ref = nat

record ParkingSlot =
  s_id :: string
  s_zoneId :: string
  s_areaId :: string
  isAvailable :: bool

record ParkingArea =
  a_id :: string
  a_name :: string
  a_zoneId :: string
  slots :: "slot_ref list"

record Zone =
  z_id :: string
  z_name :: string
  areas :: "ParkingArea list"
  adjacentZones :: "string list"

record Vehicle =
  v_id :: string
  licensePlate :: string
  preferredZoneId :: string

record ParkingRequest =
  r_id :: string
  vehicleId :: string
  requestedZoneId :: string
  allocatedSlotId :: "string option"
  allocatedZoneId :: "string option"
  state :: RequestState
  requestTime :: nat
  allocationTime :: "nat option"
  occupiedTime :: "nat option"
  releaseTime :: "nat option"
  isCrossZone :: bool
  crossZonePenalty :: nat

record AllocationOperation =
  op_id :: string
  requestId :: string
  slotId :: string
  previousSlotState :: bool
  previousRequestState :: RequestState
  timestamp :: nat

record ParkingSystemState =
  st_zones :: "Zone list"
  st_vehicles :: "Vehicle list"
  st_requests :: "ParkingRequest list"
  st_operationHistory :: "AllocationOperation list"

section \<open>The engine (parking-system.ts)\<close>

text \<open>
  The fields of class \<open>ParkingSystem\<close>. A JavaScript \<open>Map\<close> iterates in insertion order and
  \<open>set\<close> on a present key replaces the value in place: \<open>zones\<close> and \<open>vehicles\<close> are
  association lists written with \<open>AList.update\<close>. The registry \<open>requests\<close> is only ever
  read by key in the operations below and is a partial map. \<open>OperationLinkedList\<close> is the
  list of its nodes' data from head to tail: \<open>push\<close> appends, \<open>pop\<close> removes the last
  element, \<open>size\<close> is the length. \<open>RequestQueue\<close> holds references to request objects,
  that is, their keys. \<open>slotStore\<close> is the store of slot objects.
\<close>

record ParkingSystem =
  zones :: "(string \<times> Zone) list"
  vehicles :: "(string \<times> Vehicle) list"
  requests :: "string \<rightharpoonup> ParkingRequest"
  operationHistory :: "AllocationOperation list"
  pendingRequests :: "string list"
  sys_crossZonePenalty :: nat
  slotStore :: "slot_ref \<Rightarrow> ParkingSlot"

definition push :: "AllocationOperation \<Rightarrow> AllocationOperation list \<Rightarrow> AllocationOperation list" where
  "push operation hist = hist @ [operation]"

definition pop :: "AllocationOperation list \<Rightarrow> (AllocationOperation \<times> AllocationOperation list) option" where
  "pop hist = (if hist = [] then None else Some (last hist, butlast hist))"

definition addZone :: "ParkingSystem \<Rightarrow> Zone \<Rightarrow> ParkingSystem" where
  "addZone s zone = s\<lparr>zones := AList.update (z_id zone) zone (zones s)\<rparr>"

definition getZone :: "ParkingSystem \<Rightarrow> string \<Rightarrow> Zone option" where
  "getZone s zoneId = map_of (zones s) zoneId"

definition addVehicle :: "ParkingSystem \<Rightarrow> Vehicle \<Rightarrow> ParkingSystem" where
  "addVehicle s vehicle = s\<lparr>vehicles := AList.update (v_id vehicle) vehicle (vehicles s)\<rparr>"

text \<open>
  The constructor and \<open>loadState\<close>: every field initialiser, then the four loops of
  \<open>loadState\<close> when an initial state is given. The cross-zone penalty is the field
  initialiser \<open>10\<close>; the constructor has no parameter for it.
\<close>

definition loadState :: "ParkingSystem \<Rightarrow> ParkingSystemState \<Rightarrow> ParkingSystem" where
  "loadState s st =
     (let s1 = foldl (\<lambda>acc zone. acc\<lparr>zones := AList.update (z_id zone) zone (zones acc)\<rparr>) s (st_zones st);
          s2 = foldl (\<lambda>acc vehicle. acc\<lparr>vehicles := AList.update (v_id vehicle) vehicle (vehicles acc)\<rparr>) s1 (st_vehicles st);
          s3 = foldl (\<lambda>acc request. acc\<lparr>requests := (requests acc)(r_id request \<mapsto> request)\<rparr>) s2 (st_requests st);
          s4 = foldl (\<lambda>acc operation. acc\<lparr>operationHistory := push operation (operationHistory acc)\<rparr>) s3 (st_operationHistory st)
      in s4)"

definition new_ParkingSystem :: "(slot_ref \<Rightarrow> ParkingSlot) \<Rightarrow> ParkingSystemState option \<Rightarrow> ParkingSystem" where
  "new_ParkingSystem store initialState =
     (let s = \<lparr>zones = [], vehicles = [], requests = Map.empty, operationHistory = [],
               pendingRequests = [], sys_crossZonePenalty = 10, slotStore = store\<rparr>
      in case initialState of None \<Rightarrow> s | Some st \<Rightarrow> loadState s st)"

subsection \<open>Slot management\<close>

fun findSlot_areas :: "(slot_ref \<Rightarrow> ParkingSlot) \<Rightarrow> string \<Rightarrow> Zone \<Rightarrow> ParkingArea list
    \<Rightarrow> (slot_ref \<times> Zone \<times> ParkingArea) option" where
  "findSlot_areas store sid zone [] = None"
| "findSlot_areas store sid zone (area # rest) =
     (case find (\<lambda>r. s_id (store r) = sid) (slots area) of
        Some slot \<Rightarrow> Some (slot, zone, area)
      | None \<Rightarrow> findSlot_areas store sid zone rest)"

fun findSlot_zones :: "(slot_ref \<Rightarrow> ParkingSlot) \<Rightarrow> string \<Rightarrow> (string \<times> Zone) list
    \<Rightarrow> (slot_ref \<times> Zone \<times> ParkingArea) option" where
  "findSlot_zones store sid [] = None"
| "findSlot_zones store sid (kz # rest) =
     (case findSlot_areas store sid (snd kz) (areas (snd kz)) of
        Some found \<Rightarrow> Some found
      | None \<Rightarrow> findSlot_zones store sid rest)"

definition findSlot :: "ParkingSystem \<Rightarrow> string \<Rightarrow> (slot_ref \<times> Zone \<times> ParkingArea) option" where
  "findSlot s sid = findSlot_zones (slotStore s) sid (zones s)"

definition getAvailableSlotsInZone :: "ParkingSystem \<Rightarrow> string \<Rightarrow> slot_ref list" where
  "getAvailableSlotsInZone s zoneId =
     (case map_of (zones s) zoneId of
        None \<Rightarrow> []
      | Some zone \<Rightarrow>
          concat (map (\<lambda>area. filter (\<lambda>slot. isAvailable (slotStore s slot)) (slots area)) (areas zone)))"

definition getTotalSlotsInZone :: "ParkingSystem \<Rightarrow> string \<Rightarrow> nat" where
  "getTotalSlotsInZone s zoneId =
     (case map_of (zones s) zoneId of
        None \<Rightarrow> 0
      | Some zone \<Rightarrow> foldl (\<lambda>total area. total + length (slots area)) 0 (areas zone))"

definition setAvailable :: "ParkingSystem \<Rightarrow> slot_ref \<Rightarrow> bool \<Rightarrow> ParkingSystem" where
  \<comment> \<open>the assignment \<open>slot.isAvailable = v\<close> on the object at address \<open>slot\<close>\<close>
  "setAvailable s slot v = s\<lparr>slotStore := (slotStore s)(slot := (slotStore s slot)\<lparr>isAvailable := v\<rparr>)\<rparr>"

subsection \<open>State machine\<close>

definition canTransition :: "RequestState \<Rightarrow> RequestState \<Rightarrow> bool" where
  "canTransition currentState newState = (newState \<in> set (VALID_TRANSITIONS currentState))"

subsection \<open>Results\<close>

text \<open>
  Every operation returns \<open>{success, message, request?}\<close>. The message texts are kept as a
  datatype, one constructor per template string of the source, with the interpolated values
  as arguments.
\<close>

datatype Message =
    RequestNotFound
  | InvalidTransition RequestState RequestState
  | NoAvailableSlots
  | AllocatedTo string
  | AllocatedAdjacent string nat
  | NowOccupied
  | ReleasedOk
  | CancelledOk
  | RolledBack nat

record OpResult =
  success :: bool
  message :: Message
  request :: "ParkingRequest option"

record RollbackResult =
  rb_success :: bool
  rb_message :: Message
  rolledBack :: nat

definition failure :: "Message \<Rightarrow> OpResult" where
  "failure m = \<lparr>success = False, message = m, request = None\<rparr>"

subsection \<open>Operations\<close>

text \<open>
  \<open>Date.now()\<close> and the generated identifiers are inputs of the operations: \<open>newId\<close> is
  the string built from the clock and \<open>Math.random()\<close>, \<open>now\<close> a clock reading.
\<close>

definition createRequest :: "ParkingSystem \<Rightarrow> string \<Rightarrow> string \<Rightarrow> string \<Rightarrow> nat
    \<Rightarrow> ParkingRequest \<times> ParkingSystem" where
  "createRequest s vehId zoneId newId now =
     (let req = \<lparr>r_id = newId, vehicleId = vehId, requestedZoneId = zoneId,
                 allocatedSlotId = None, allocatedZoneId = None, state = REQUESTED,
                 requestTime = now, allocationTime = None, occupiedTime = None,
                 releaseTime = None, isCrossZone = False, crossZonePenalty = 0\<rparr>
      in (req, s\<lparr>requests := (requests s)(newId \<mapsto> req),
                 pendingRequests := pendingRequests s @ [newId]\<rparr>))"

text \<open>
  The loop over \<open>requestedZone.adjacentZones\<close>: \<open>availableSlots\<close> is overwritten with each
  adjacent zone's available slots and the loop breaks at the first non-empty one.
\<close>

fun tryAdjacentZones :: "ParkingSystem \<Rightarrow> string list \<Rightarrow> slot_ref list \<times> bool" where
  "tryAdjacentZones s [] = ([], False)"
| "tryAdjacentZones s (adjacentZoneId # rest) =
     (let availableSlots = getAvailableSlotsInZone s adjacentZoneId
      in if length availableSlots > 0 then (availableSlots, True)
         else tryAdjacentZones s rest)"

definition selectSlots :: "ParkingSystem \<Rightarrow> ParkingRequest \<Rightarrow> slot_ref list \<times> bool" where
  "selectSlots s req =
     (let availableSlots = getAvailableSlotsInZone s (requestedZoneId req)
      in if length availableSlots = 0 then
           (case map_of (zones s) (requestedZoneId req) of
              None \<Rightarrow> (availableSlots, False)
            | Some requestedZone \<Rightarrow> tryAdjacentZones s (adjacentZones requestedZone))
         else (availableSlots, False))"

definition allocateSlot :: "ParkingSystem \<Rightarrow> string \<Rightarrow> string \<Rightarrow> nat \<Rightarrow> nat
    \<Rightarrow> OpResult \<times> ParkingSystem" where
  "allocateSlot s reqId newOpId opTime allocTime =
     (case requests s reqId of
        None \<Rightarrow> (failure RequestNotFound, s)
      | Some req \<Rightarrow>
          if \<not> canTransition (state req) ALLOCATED
          then (failure (InvalidTransition (state req) ALLOCATED), s)
          else
            (case selectSlots s req of
               ([], isCross) \<Rightarrow> (failure NoAvailableSlots, s)
             | (selectedSlot # others, isCross) \<Rightarrow>
                 (let slot = slotStore s selectedSlot;
                      operation = \<lparr>op_id = newOpId, requestId = r_id req, slotId = s_id slot,
                                   previousSlotState = isAvailable slot,
                                   previousRequestState = state req, timestamp = opTime\<rparr>;
                      s1 = s\<lparr>operationHistory := push operation (operationHistory s)\<rparr>;
                      s2 = setAvailable s1 selectedSlot False;
                      req' = req\<lparr>allocatedSlotId := Some (s_id slot),
                                 allocatedZoneId := Some (s_zoneId slot),
                                 state := ALLOCATED,
                                 allocationTime := Some allocTime,
                                 isCrossZone := isCross,
                                 crossZonePenalty := (if isCross then sys_crossZonePenalty s else 0)\<rparr>;
                      s3 = s2\<lparr>requests := (requests s2)(reqId \<mapsto> req')\<rparr>
                  in (\<lparr>success = True,
                       message = (if isCross then AllocatedAdjacent (s_id slot) (sys_crossZonePenalty s)
                                  else AllocatedTo (s_id slot)),
                       request = Some req'\<rparr>, s3))))"

definition occupySlot :: "ParkingSystem \<Rightarrow> string \<Rightarrow> nat \<Rightarrow> OpResult \<times> ParkingSystem" where
  "occupySlot s reqId now =
     (case requests s reqId of
        None \<Rightarrow> (failure RequestNotFound, s)
      | Some req \<Rightarrow>
          if \<not> canTransition (state req) OCCUPIED
          then (failure (InvalidTransition (state req) OCCUPIED), s)
          else
            (let req' = req\<lparr>state := OCCUPIED, occupiedTime := Some now\<rparr>
             in (\<lparr>success = True, message = NowOccupied, request = Some req'\<rparr>,
                 s\<lparr>requests := (requests s)(reqId \<mapsto> req')\<rparr>)))"

text \<open>
  \<open>if (request.allocatedSlotId)\<close> is a truthiness test: it fails on \<open>null\<close> and on the
  empty string.
\<close>

definition freeAllocatedSlot :: "ParkingSystem \<Rightarrow> ParkingRequest \<Rightarrow> ParkingSystem" where
  "freeAllocatedSlot s req =
     (case allocatedSlotId req of
        None \<Rightarrow> s
      | Some sid \<Rightarrow>
          if sid = [] then s
          else (case findSlot s sid of
                  None \<Rightarrow> s
                | Some (slot, zone, area) \<Rightarrow> setAvailable s slot True))"

definition releaseSlot :: "ParkingSystem \<Rightarrow> string \<Rightarrow> nat \<Rightarrow> OpResult \<times> ParkingSystem" where
  "releaseSlot s reqId now =
     (case requests s reqId of
        None \<Rightarrow> (failure RequestNotFound, s)
      | Some req \<Rightarrow>
          if \<not> canTransition (state req) RELEASED
          then (failure (InvalidTransition (state req) RELEASED), s)
          else
            (let s1 = freeAllocatedSlot s req;
                 req' = req\<lparr>state := RELEASED, releaseTime := Some now\<rparr>
             in (\<lparr>success = True, message = ReleasedOk, request = Some req'\<rparr>,
                 s1\<lparr>requests := (requests s1)(reqId \<mapsto> req')\<rparr>)))"

definition cancelRequest :: "ParkingSystem \<Rightarrow> string \<Rightarrow> OpResult \<times> ParkingSystem" where
  "cancelRequest s reqId =
     (case requests s reqId of
        None \<Rightarrow> (failure RequestNotFound, s)
      | Some req \<Rightarrow>
          if \<not> canTransition (state req) CANCELLED
          then (failure (InvalidTransition (state req) CANCELLED), s)
          else
            (let s1 = freeAllocatedSlot s req;
                 req' = req\<lparr>state := CANCELLED\<rparr>
             in (\<lparr>success = True, message = CancelledOk, request = Some req'\<rparr>,
                 s1\<lparr>requests := (requests s1)(reqId \<mapsto> req')\<rparr>)))"

subsection \<open>Rollback\<close>

text \<open>
  The body of the rollback loop after the pop: restore the slot found by id, then the
  request found by id.
\<close>

definition restoreSlot :: "ParkingSystem \<Rightarrow> AllocationOperation \<Rightarrow> ParkingSystem" where
  "restoreSlot s operation =
     (case findSlot s (slotId operation) of
        None \<Rightarrow> s
      | Some (slot, zone, area) \<Rightarrow> setAvailable s slot (previousSlotState operation))"

definition restoreRequest :: "ParkingSystem \<Rightarrow> AllocationOperation \<Rightarrow> ParkingSystem" where
  "restoreRequest s operation =
     (case requests s (requestId operation) of
        None \<Rightarrow> s
      | Some req \<Rightarrow>
          (let req1 = req\<lparr>state := previousRequestState operation\<rparr>;
               req2 = (if previousRequestState operation = REQUESTED
                       then req1\<lparr>allocatedSlotId := None, allocatedZoneId := None,
                                 allocationTime := None, isCrossZone := False,
                                 crossZonePenalty := 0\<rparr>
                       else req1)
           in s\<lparr>requests := (requests s)(requestId operation \<mapsto> req2)\<rparr>))"

definition undoOperation :: "ParkingSystem \<Rightarrow> AllocationOperation \<Rightarrow> ParkingSystem" where
  "undoOperation s operation = restoreRequest (restoreSlot s operation) operation"

text \<open>
  \<open>for (let i = 0; i < k && this.operationHistory.size > 0; i++)\<close>. The argument \<open>k\<close> is
  an integer-valued number and may be negative.
\<close>

function rollback_loop :: "int \<Rightarrow> int \<Rightarrow> ParkingSystem \<Rightarrow> nat \<Rightarrow> ParkingSystem \<times> nat" where
  "rollback_loop i k s n =
     (if i < k \<and> length (operationHistory s) > 0 then
        (case pop (operationHistory s) of
           None \<Rightarrow> (s, n)
         | Some (operation, hist) \<Rightarrow>
             rollback_loop (i + 1) k (undoOperation (s\<lparr>operationHistory := hist\<rparr>) operation) (n + 1))
      else (s, n))"
  by pat_completeness auto
termination
  by (relation "measure (\<lambda>(i, k, s, n). nat (k - i))") auto

declare rollback_loop.simps [simp del]

definition rollback :: "ParkingSystem \<Rightarrow> int \<Rightarrow> RollbackResult \<times> ParkingSystem" where
  "rollback s k =
     (let (s', n) = rollback_loop 0 k s 0
      in (\<lparr>rb_success = True, rb_message = RolledBack n, rolledBack = n\<rparr>, s'))"

subsection \<open>JavaScript numbers\<close>

text \<open>
  A JavaScript number is an IEEE 754 double. A finite double is identified with the rational
  it denotes, and an arithmetic operation returns the exact result rounded to the nearest
  double, ties to even: \<open>toDouble\<close> rounds a rational to 53 significant bits. Only the
  normal range is modelled (no subnormal numbers, no overflow, no NaN); the numbers of the
  utilization computation (slot counts below \<open>2^53\<close>, a quotient between \<open>2^-53\<close> and 1,
  a product between 0 and 100) stay inside it. \<open>binade x\<close> is the exponent of the
  power of two at or below a positive \<open>x\<close>.
\<close>

definition roundHalfEven :: "rat \<Rightarrow> int" where
  "roundHalfEven y =
     (let f = \<lfloor>y\<rfloor>; r = y - of_int f
      in if r < 1 / 2 then f else if 1 / 2 < r then f + 1 else if even f then f else f + 1)"

definition binade :: "rat \<Rightarrow> int" where
  "binade x =
     (let l = bitlen (fst (quotient_of x)) - bitlen (snd (quotient_of x))
      in if 2 powi l \<le> x then l else l - 1)"

definition toDouble :: "rat \<Rightarrow> rat" where
  "toDouble x =
     (if x = 0 then 0
      else (let e = binade \<bar>x\<bar> - 52
            in sgn x * (of_int (roundHalfEven (\<bar>x\<bar> / 2 powi e)) * 2 powi e)))"


subsection \<open>Analytics: zone utilization\<close>





section \<open>Well-formed topologies and reachable states\<close>

definition zoneSlotRefs :: "Zone \<Rightarrow> slot_ref list" where
  \<comment> \<open>the slots of a zone in declared order: areas in zone order, slots in area order\<close>
  "zoneSlotRefs zone = concat (map slots (areas zone))"

definition refsOf :: "(string \<times> Zone) list \<Rightarrow> slot_ref list" where
  \<comment> \<open>every slot reference of the topology, in the iteration order of \<open>findSlot\<close>\<close>
  "refsOf zs = concat (map (\<lambda>kz. zoneSlotRefs (snd kz)) zs)"

definition slotBackrefsOk :: "ParkingSystem \<Rightarrow> bool" where
  \<comment> \<open>every slot's \<open>zoneId\<close> names the zone that holds it\<close>
  "slotBackrefsOk s =
     (\<forall>kz \<in> set (zones s). \<forall>r \<in> set (zoneSlotRefs (snd kz)). s_zoneId (slotStore s r) = fst kz)"

definition uniqueIds :: "(string \<times> Zone) list \<Rightarrow> (slot_ref \<Rightarrow> ParkingSlot) \<Rightarrow> bool" where
  \<comment> \<open>slot ids are unique: two references with the same id are the same object\<close>
  "uniqueIds zs st =
     (\<forall>a \<in> set (refsOf zs). \<forall>b \<in> set (refsOf zs). s_id (st a) = s_id (st b) \<longrightarrow> a = b)"

definition uniqueSlotIds :: "ParkingSystem \<Rightarrow> bool" where
  "uniqueSlotIds s = uniqueIds (zones s) (slotStore s)"


subsection \<open>Reachable states\<close>

text \<open>
  A loaded topology is what the host builds before any operation: the constructor without
  an initial state, then \<open>addZone\<close> for each zone. The states of the system are those
  reached from it by the six operations; the identifier that \<open>createRequest\<close> generates is
  new (uniqueness of generated ids is the generator's contract).
\<close>

definition loadTopology :: "(slot_ref \<Rightarrow> ParkingSlot) \<Rightarrow> Zone list \<Rightarrow> ParkingSystem" where
  "loadTopology store zoneList = foldl addZone (new_ParkingSystem store None) zoneList"

inductive reachable :: "ParkingSystem \<Rightarrow> ParkingSystem \<Rightarrow> bool" for s0 :: ParkingSystem where
  start: "reachable s0 s0"
| create: "reachable s0 s \<Longrightarrow> requests s newId = None \<Longrightarrow>
           reachable s0 (snd (createRequest s vehId zoneId newId now))"
| allocate: "reachable s0 s \<Longrightarrow> reachable s0 (snd (allocateSlot s reqId newOpId opTime allocTime))"
| occupy: "reachable s0 s \<Longrightarrow> reachable s0 (snd (occupySlot s reqId now))"
| release: "reachable s0 s \<Longrightarrow> reachable s0 (snd (releaseSlot s reqId now))"
| cancel: "reachable s0 s \<Longrightarrow> reachable s0 (snd (cancelRequest s reqId))"
| undo: "reachable s0 s \<Longrightarrow> reachable s0 (snd (rollback s k))"

subsection \<open>The invariant carried through the operations\<close>

text \<open>
  The inductive invariant, over the four components the operations touch. Besides what
  holds of the requests that hold a slot, it records how the log relates to the registry: at most one record per
  request, every record logged from \<open>REQUESTED\<close> for a registered request, no record for a
  request that is \<open>REQUESTED\<close>, and a record whose slot is recorded again later in the log
  belongs to a request that no longer holds it.
\<close>

definition slotAt :: "(string \<times> Zone) list \<Rightarrow> (slot_ref \<Rightarrow> ParkingSlot) \<Rightarrow> string \<Rightarrow> slot_ref option" where
  "slotAt zs st sid = map_option fst (findSlot_zones st sid zs)"

definition active :: "ParkingRequest \<Rightarrow> bool" where
  "active req = (state req = ALLOCATED \<or> state req = OCCUPIED)"

definition activeIn :: "(string \<rightharpoonup> ParkingRequest) \<Rightarrow> string \<Rightarrow> bool" where
  "activeIn rq rid = (case rq rid of None \<Rightarrow> False | Some req \<Rightarrow> active req)"

definition invC :: "(string \<times> Zone) list \<Rightarrow> (slot_ref \<Rightarrow> ParkingSlot) \<Rightarrow> (string \<rightharpoonup> ParkingRequest)
    \<Rightarrow> AllocationOperation list \<Rightarrow> bool" where
  "invC zs st rq h =
     (uniqueIds zs st
      \<and> distinct (map requestId h)
      \<and> (\<forall>operation \<in> set h. previousRequestState operation = REQUESTED \<and> rq (requestId operation) \<noteq> None)
      \<and> (\<forall>xs operation ys. h = xs @ operation # ys \<and> slotId operation \<in> slotId ` set ys
            \<longrightarrow> \<not> activeIn rq (requestId operation))
      \<and> (\<forall>rid req. rq rid = Some req \<longrightarrow>
            r_id req = rid
            \<and> (state req = REQUESTED \<longrightarrow> allocatedSlotId req = None \<and> rid \<notin> requestId ` set h)
            \<and> (active req \<longrightarrow> allocatedZoneId req \<noteq> None
                  \<and> (\<exists>operation \<in> set h. requestId operation = rid
                        \<and> allocatedSlotId req = Some (slotId operation)
                        \<and> (\<exists>slot. slotAt zs st (slotId operation) = Some slot
                              \<and> \<not> isAvailable (st slot))))))"

definition sysInv :: "ParkingSystem \<Rightarrow> bool" where
  "sysInv s = invC (zones s) (slotStore s) (requests s) (operationHistory s)"

text \<open>
  What every record of the log satisfies, with no assumption on the topology: it was
  logged from \<open>REQUESTED\<close> with the slot recorded as available, its request is registered,
  and a slot with the recorded id exists.
\<close>

definition logRecordsOk :: "(string \<times> Zone) list \<Rightarrow> (slot_ref \<Rightarrow> ParkingSlot)
    \<Rightarrow> (string \<rightharpoonup> ParkingRequest) \<Rightarrow> AllocationOperation list \<Rightarrow> bool" where
  "logRecordsOk zs st rq h =
     ((\<forall>rid req. rq rid = Some req \<longrightarrow> r_id req = rid)
      \<and> (\<forall>operation \<in> set h.
            previousRequestState operation = REQUESTED \<and> previousSlotState operation
            \<and> rq (requestId operation) \<noteq> None
            \<and> slotAt zs st (slotId operation) \<noteq> None))"

definition logOk :: "ParkingSystem \<Rightarrow> bool" where
  "logOk s = logRecordsOk (zones s) (slotStore s) (requests s) (operationHistory s)"

text \<open>
  A request in \<open>REQUESTED\<close> carries no trace of an allocation: it is new, or a rollback
  has cleared it.
\<close>

definition requestedClear :: "(string \<rightharpoonup> ParkingRequest) \<Rightarrow> bool" where
  "requestedClear rq =
     (\<forall>rid req. rq rid = Some req \<and> state req = REQUESTED \<longrightarrow>
        allocatedSlotId req = None \<and> allocatedZoneId req = None \<and> allocationTime req = None
        \<and> \<not> isCrossZone req \<and> crossZonePenalty req = 0)"

text \<open>
  A run of allocations, one call of \<open>allocateSlot\<close> after the other with nothing in
  between, each given its generated operation id and its two clock readings; the run is
  \<open>None\<close> as soon as one of them fails.
\<close>

fun allocateAll :: "ParkingSystem \<Rightarrow> (string \<times> string \<times> nat \<times> nat) list \<Rightarrow> ParkingSystem option" where
  "allocateAll s [] = Some s"
| "allocateAll s ((reqId, newOpId, opTime, allocTime) # rest) =
     (if success (fst (allocateSlot s reqId newOpId opTime allocTime))
      then allocateAll (snd (allocateSlot s reqId newOpId opTime allocTime)) rest
      else None)"

subsection \<open>Concrete topologies (the scenarios of the test suite)\<close>

definition mkSlot :: "string \<Rightarrow> string \<Rightarrow> string \<Rightarrow> bool \<Rightarrow> ParkingSlot" where
  "mkSlot sid zid aid av = \<lparr>s_id = sid, s_zoneId = zid, s_areaId = aid, isAvailable = av\<rparr>"

definition mkZone :: "string \<Rightarrow> string list \<Rightarrow> (string \<times> slot_ref list) list \<Rightarrow> Zone" where
  \<comment> \<open>\<open>createZone\<close> of the test file\<close>
  "mkZone zid adj cfg =
     \<lparr>z_id = zid, z_name = zid,
      areas = map (\<lambda>(aid, refs). \<lparr>a_id = aid, a_name = aid, a_zoneId = zid, slots = refs\<rparr>) cfg,
      adjacentZones = adj\<rparr>"

definition storeA :: "slot_ref \<Rightarrow> ParkingSlot" where
  "storeA = (\<lambda>_. mkSlot ''a1'' ''za'' ''area-a1'' True)(1 := mkSlot ''a2'' ''za'' ''area-a1'' True)"

definition sysA :: ParkingSystem where
  \<comment> \<open>zone \<open>za\<close> with two free slots \<open>a1\<close>, \<open>a2\<close>\<close>
  "sysA = addZone (new_ParkingSystem storeA None) (mkZone ''za'' [] [(''area-a1'', [0, 1])])"

definition storeB :: "slot_ref \<Rightarrow> ParkingSlot" where
  "storeB = (\<lambda>_. mkSlot ''a1'' ''za'' ''area-a1'' False)
              (1 := mkSlot ''a2'' ''za'' ''area-a1'' False,
               2 := mkSlot ''b1'' ''zb'' ''area-b1'' True)"

definition sysB :: ParkingSystem where
  \<comment> \<open>zone \<open>za\<close> fully occupied, adjacent zone \<open>zb\<close> with the free slot \<open>b1\<close>\<close>
  "sysB = addZone (addZone (new_ParkingSystem storeB None)
                     (mkZone ''za'' [''zb''] [(''area-a1'', [0, 1])]))
                  (mkZone ''zb'' [''za''] [(''area-b1'', [2])])"

definition storeC :: "slot_ref \<Rightarrow> ParkingSlot" where
  "storeC = (\<lambda>_. mkSlot ''a1'' ''za'' ''area-a1'' False)(1 := mkSlot ''b1'' ''zb'' ''area-b1'' False)"

definition sysC :: ParkingSystem where
  \<comment> \<open>zones \<open>za\<close> and \<open>zb\<close>, adjacent to each other, both fully occupied\<close>
  "sysC = addZone (addZone (new_ParkingSystem storeC None)
                     (mkZone ''za'' [''zb''] [(''area-a1'', [0])]))
                  (mkZone ''zb'' [''za''] [(''area-b1'', [1])])"

definition withRequest :: "ParkingSystem \<Rightarrow> string \<Rightarrow> string \<Rightarrow> ParkingSystem" where
  \<comment> \<open>the system after \<open>createRequest\<close> for vehicle \<open>v1\<close>\<close>
  "withRequest s zoneId newId = snd (createRequest s ''v1'' zoneId newId 100)"

definition sysA_allocated :: ParkingSystem where
  \<comment> \<open>scenario (a): the request \<open>REQ-1\<close> for zone \<open>za\<close> has been allocated\<close>
  "sysA_allocated = snd (allocateSlot (withRequest sysA ''za'' ''REQ-1'') ''REQ-1'' ''OP-1'' 101 102)"

definition sysA_occupied :: ParkingSystem where
  "sysA_occupied = snd (occupySlot sysA_allocated ''REQ-1'' 103)"

definition sysA_released :: ParkingSystem where
  \<comment> \<open>scenario (f): allocate, occupy, release\<close>
  "sysA_released = snd (releaseSlot sysA_occupied ''REQ-1'' 104)"

definition sysA_two :: ParkingSystem where
  \<comment> \<open>scenario (a) continued: a second request \<open>REQ-2\<close> for zone \<open>za\<close> has been allocated\<close>
  "sysA_two = snd (allocateSlot (snd (createRequest sysA_allocated ''v2'' ''za'' ''REQ-2'' 105))
                     ''REQ-2'' ''OP-2'' 106 107)"

definition sysA_rolledBack :: ParkingSystem where
  \<comment> \<open>the occupied request of scenario (a) after \<open>rollback(1)\<close>\<close>
  "sysA_rolledBack = snd (rollback sysA_occupied 1)"

definition sysA_reallocated :: ParkingSystem where
  \<comment> \<open>and after running the same allocation again\<close>
  "sysA_reallocated = snd (allocateSlot sysA_rolledBack ''REQ-1'' ''OP-1'' 101 102)"

definition sysA_twoRequests :: ParkingSystem where
  "sysA_twoRequests = snd (createRequest (withRequest sysA ''za'' ''REQ-1'') ''v2'' ''za'' ''REQ-2'' 105)"

definition twoCalls :: "(string \<times> string \<times> nat \<times> nat) list" where
  "twoCalls = [(''REQ-1'', ''OP-1'', 101, 102), (''REQ-2'', ''OP-2'', 106, 107)]"



section \<open>The transition guard\<close>

lemma canTransition_table:
  "canTransition cur new \<longleftrightarrow>
     (cur, new) \<in> {(REQUESTED, ALLOCATED), (REQUESTED, CANCELLED), (ALLOCATED, OCCUPIED),
                  (ALLOCATED, CANCELLED), (OCCUPIED, RELEASED)}"
  by (cases cur; cases new) (simp_all add: canTransition_def)

text \<open>
  Claim C5. \<open>canTransition\<close> is exactly the transition table, and an operation whose target
  state the table does not allow from the request's current state returns the
  invalid-transition failure naming both states and returns the system unchanged (request,
  slot store and operation log included). In particular \<open>releaseSlot\<close> on an \<open>ALLOCATED\<close>
  request fails and the request remains \<open>ALLOCATED\<close>.
\<close>

theorem invalid_transition_leaves_state:
  assumes "requests s reqId = Some req"
  shows "(\<forall>cur new. canTransition cur new \<longleftrightarrow>
            (cur, new) \<in> {(REQUESTED, ALLOCATED), (REQUESTED, CANCELLED), (ALLOCATED, OCCUPIED),
                         (ALLOCATED, CANCELLED), (OCCUPIED, RELEASED)})
       \<and> (\<not> canTransition (state req) ALLOCATED \<longrightarrow>
            allocateSlot s reqId newOpId opTime allocTime
              = (failure (InvalidTransition (state req) ALLOCATED), s))
       \<and> (\<not> canTransition (state req) OCCUPIED \<longrightarrow>
            occupySlot s reqId now = (failure (InvalidTransition (state req) OCCUPIED), s))
       \<and> (\<not> canTransition (state req) RELEASED \<longrightarrow>
            releaseSlot s reqId now = (failure (InvalidTransition (state req) RELEASED), s))
       \<and> (\<not> canTransition (state req) CANCELLED \<longrightarrow>
            cancelRequest s reqId = (failure (InvalidTransition (state req) CANCELLED), s))
       \<and> (state req = ALLOCATED \<longrightarrow>
            releaseSlot s reqId now = (failure (InvalidTransition ALLOCATED RELEASED), s))"
  using assms
  by (simp add: canTransition_table allocateSlot_def occupySlot_def releaseSlot_def
        cancelRequest_def)

section \<open>Slot selection\<close>

lemma tryAdjacent_none:
  "\<forall>adj \<in> set zs. getAvailableSlotsInZone s adj = [] \<Longrightarrow> tryAdjacentZones s zs = ([], False)"
  by (induction zs) simp_all

lemma tryAdjacent_first:
  "\<forall>z \<in> set pre. getAvailableSlotsInZone s z = [] \<Longrightarrow>
   getAvailableSlotsInZone s adj = slot # rest \<Longrightarrow>
   tryAdjacentZones s (pre @ adj # post) = (slot # rest, True)"
  by (induction pre) simp_all

lemma getAvailable_filter:
  "map_of (zones s) zid = Some zone \<Longrightarrow>
   getAvailableSlotsInZone s zid = filter (\<lambda>r. isAvailable (slotStore s r)) (zoneSlotRefs zone)"
  by (simp add: getAvailableSlotsInZone_def zoneSlotRefs_def filter_concat comp_def)

lemma getAvailable_unknown:
  "map_of (zones s) zid = None \<Longrightarrow> getAvailableSlotsInZone s zid = []"
  by (simp add: getAvailableSlotsInZone_def)

lemma getAvailable_Cons_zone:
  assumes "getAvailableSlotsInZone s zid = slot # rest"
  shows "\<exists>zone pre post. map_of (zones s) zid = Some zone \<and> zoneSlotRefs zone = pre @ slot # post
           \<and> (\<forall>r \<in> set pre. \<not> isAvailable (slotStore s r)) \<and> isAvailable (slotStore s slot)"
proof (cases "map_of (zones s) zid")
  case None
  with assms show ?thesis by (simp add: getAvailable_unknown)
next
  case (Some zone)
  with assms have "filter (\<lambda>r. isAvailable (slotStore s r)) (zoneSlotRefs zone) = slot # rest"
    by (simp add: getAvailable_filter)
  then obtain pre post where "zoneSlotRefs zone = pre @ slot # post"
    "\<forall>r \<in> set pre. \<not> isAvailable (slotStore s r)" "isAvailable (slotStore s slot)"
    by (auto simp: filter_eq_Cons_iff)
  with Some show ?thesis by blast
qed

lemma allocate_none_selected:
  assumes "requests s reqId = Some req" and "state req = REQUESTED"
    and "selectSlots s req = ([], isCross)"
  shows "allocateSlot s reqId newOpId opTime allocTime = (failure NoAvailableSlots, s)"
  using assms by (simp add: allocateSlot_def canTransition_def)

lemma allocate_success:
  assumes "requests s reqId = Some req" and "state req = REQUESTED"
    and "selectSlots s req = (slot # rest, isCross)"
  shows "allocateSlot s reqId newOpId opTime allocTime =
     (let req' = req\<lparr>allocatedSlotId := Some (s_id (slotStore s slot)),
                     allocatedZoneId := Some (s_zoneId (slotStore s slot)),
                     state := ALLOCATED,
                     allocationTime := Some allocTime,
                     isCrossZone := isCross,
                     crossZonePenalty := (if isCross then sys_crossZonePenalty s else 0)\<rparr>
      in (\<lparr>success = True,
           message = (if isCross then AllocatedAdjacent (s_id (slotStore s slot)) (sys_crossZonePenalty s)
                      else AllocatedTo (s_id (slotStore s slot))),
           request = Some req'\<rparr>,
          s\<lparr>operationHistory := operationHistory s @
                [\<lparr>op_id = newOpId, requestId = r_id req, slotId = s_id (slotStore s slot),
                  previousSlotState = isAvailable (slotStore s slot),
                  previousRequestState = REQUESTED, timestamp = opTime\<rparr>],
            slotStore := (slotStore s)(slot := (slotStore s slot)\<lparr>isAvailable := False\<rparr>),
            requests := (requests s)(reqId \<mapsto> req')\<rparr>))"
  using assms
  by (simp add: allocateSlot_def canTransition_def Let_def setAvailable_def push_def)

text \<open>
  Claim C6. If a \<open>REQUESTED\<close> request's zone has no available slot and no zone of that
  zone's adjacency list has one (the list is not consulted when the requested zone is
  unknown), \<open>allocateSlot\<close> returns the no-available-slots failure and the system is
  returned as it was: the request, every slot and the operation log are unchanged.
\<close>

theorem allocate_no_slots_anywhere:
  assumes "requests s reqId = Some req" and "state req = REQUESTED"
    and "getAvailableSlotsInZone s (requestedZoneId req) = []"
    and "\<forall>zone. map_of (zones s) (requestedZoneId req) = Some zone \<longrightarrow>
           (\<forall>adj \<in> set (adjacentZones zone). getAvailableSlotsInZone s adj = [])"
  shows "allocateSlot s reqId newOpId opTime allocTime = (failure NoAvailableSlots, s)"
proof -
  have "selectSlots s req = ([], False)"
    using assms(3,4) by (auto simp: selectSlots_def tryAdjacent_none split: option.splits)
  with assms(1,2) show ?thesis
    by (rule allocate_none_selected)
qed

text \<open>
  Claim C1. For a \<open>REQUESTED\<close> request whose requested zone has an available slot,
  \<open>allocateSlot\<close> succeeds with the first available slot of that zone in declared order
  (every slot before it in the zone's area-by-area listing is unavailable): the request gets
  that slot's id, state \<open>ALLOCATED\<close>, no cross-zone flag and penalty 0; the slot becomes
  unavailable and one operation record is appended. The allocated zone id is read from the
  slot's own \<open>zoneId\<close> field, which is the requested zone when the slots' back-references
  are consistent.
\<close>

theorem allocate_same_zone:
  assumes "requests s reqId = Some req" and "state req = REQUESTED"
    and "getAvailableSlotsInZone s (requestedZoneId req) = slot # rest"
  shows "(\<exists>zone pre post. map_of (zones s) (requestedZoneId req) = Some zone
            \<and> zoneSlotRefs zone = pre @ slot # post
            \<and> (\<forall>r \<in> set pre. \<not> isAvailable (slotStore s r))
            \<and> isAvailable (slotStore s slot))
       \<and> allocateSlot s reqId newOpId opTime allocTime =
           (let req' = req\<lparr>allocatedSlotId := Some (s_id (slotStore s slot)),
                           allocatedZoneId := Some (s_zoneId (slotStore s slot)),
                           state := ALLOCATED,
                           allocationTime := Some allocTime,
                           isCrossZone := False,
                           crossZonePenalty := 0\<rparr>
            in (\<lparr>success = True, message = AllocatedTo (s_id (slotStore s slot)),
                 request = Some req'\<rparr>,
                s\<lparr>operationHistory := operationHistory s @
                      [\<lparr>op_id = newOpId, requestId = r_id req, slotId = s_id (slotStore s slot),
                        previousSlotState = True,
                        previousRequestState = REQUESTED, timestamp = opTime\<rparr>],
                  slotStore := (slotStore s)(slot := (slotStore s slot)\<lparr>isAvailable := False\<rparr>),
                  requests := (requests s)(reqId \<mapsto> req')\<rparr>))
       \<and> (slotBackrefsOk s \<longrightarrow> s_zoneId (slotStore s slot) = requestedZoneId req)"
proof -
  from getAvailable_Cons_zone[OF assms(3)] obtain zone pre post where
    z: "map_of (zones s) (requestedZoneId req) = Some zone"
       "zoneSlotRefs zone = pre @ slot # post"
       "\<forall>r \<in> set pre. \<not> isAvailable (slotStore s r)" "isAvailable (slotStore s slot)"
    by blast
  from z(1) have "(requestedZoneId req, zone) \<in> set (zones s)" by (rule map_of_SomeD)
  with z(2) have zid: "s_zoneId (slotStore s slot) = requestedZoneId req" if "slotBackrefsOk s"
    using that by (fastforce simp: slotBackrefsOk_def)
  have sel: "selectSlots s req = (slot # rest, False)"
    using assms(3) by (simp add: selectSlots_def)
  show ?thesis
    using z zid allocate_success[OF assms(1,2) sel, of newOpId opTime allocTime]
    by (auto simp: Let_def)
qed

text \<open>
  Claim C7, as the code has it. For a zone id that is not in the topology, \<open>getZone\<close>
  returns nothing, \<open>getAvailableSlotsInZone\<close> returns the empty list,
  \<open>getTotalSlotsInZone\<close> returns 0, and \<open>allocateSlot\<close> for a request naming that zone
  fails with the no-available-slots failure and leaves the system unchanged.
\<close>

theorem unknown_zone_queries:
  assumes "map_of (zones s) zoneId = None"
  shows "getZone s zoneId = None
       \<and> getAvailableSlotsInZone s zoneId = []
       \<and> getTotalSlotsInZone s zoneId = 0
       \<and> (requests s reqId = Some req \<and> state req = REQUESTED \<and> requestedZoneId req = zoneId \<longrightarrow>
            allocateSlot s reqId newOpId opTime allocTime = (failure NoAvailableSlots, s))"
proof -
  have "selectSlots s req = ([], False)" if "requestedZoneId req = zoneId"
    using that assms by (simp add: selectSlots_def getAvailable_unknown)
  then show ?thesis
    using assms allocate_none_selected[of s reqId req False newOpId opTime allocTime]
    by (auto simp: getZone_def getAvailable_unknown getTotalSlotsInZone_def)
qed

section \<open>Rollback\<close>

lemma undoOperation_history [simp]:
  "operationHistory (undoOperation s operation) = operationHistory s"
  by (simp add: undoOperation_def restoreRequest_def restoreSlot_def setAvailable_def Let_def
      split: option.splits)

lemma findSlot_history [simp]: "findSlot (s\<lparr>operationHistory := h\<rparr>) sid = findSlot s sid"
  by (simp add: findSlot_def)

lemma undoOperation_history_update:
  "undoOperation (s\<lparr>operationHistory := h\<rparr>) operation
     = (undoOperation s operation)\<lparr>operationHistory := h\<rparr>"
  by (simp add: undoOperation_def restoreRequest_def restoreSlot_def setAvailable_def Let_def
      split: option.splits)

lemma foldl_undo_history_update:
  "foldl undoOperation (s\<lparr>operationHistory := h\<rparr>) ops
     = (foldl undoOperation s ops)\<lparr>operationHistory := h\<rparr>"
  by (induction ops arbitrary: s) (simp_all add: undoOperation_history_update)

lemma foldl_undo_history [simp]:
  "operationHistory (foldl undoOperation s ops) = operationHistory s"
  by (induction ops arbitrary: s) simp_all

lemma rollback_loop_char:
  "rollback_loop i k s n =
     ((foldl undoOperation s
          (take (min (nat (k - i)) (length (operationHistory s))) (rev (operationHistory s))))
        \<lparr>operationHistory :=
           take (length (operationHistory s) - min (nat (k - i)) (length (operationHistory s)))
                (operationHistory s)\<rparr>,
      n + min (nat (k - i)) (length (operationHistory s)))"
proof (induction i k s n rule: rollback_loop.induct)
  case (1 i k s n)
  let ?h = "operationHistory s"
  show ?case
  proof (cases "i < k \<and> length ?h > 0")
    case False
    then have "min (nat (k - i)) (length ?h) = 0" by auto
    with False show ?thesis
      by (subst rollback_loop.simps) auto
  next
    case True
    then have ne: "?h \<noteq> []" by auto
    define s1 where "s1 = undoOperation (s\<lparr>operationHistory := butlast ?h\<rparr>) (last ?h)"
    have h1: "operationHistory s1 = butlast ?h" by (simp add: s1_def)
    have popped: "pop ?h = Some (last ?h, butlast ?h)" using ne by (simp add: pop_def)
    define m' where "m' = min (nat (k - (i + 1))) (length (butlast ?h))"
    have ki: "nat (k - i) = Suc (nat (k - (i + 1)))" using True by linarith
    have len: "length ?h = Suc (length (butlast ?h))" using ne by simp
    have m: "min (nat (k - i)) (length ?h) = Suc m'"
      unfolding ki m'_def by (subst len) simp
    have revh: "rev ?h = last ?h # rev (butlast ?h)"
      using ne by (metis append_butlast_last_id rev.simps(2) rev_rev_ident rev_singleton_conv rev_append)
    have step: "rollback_loop i k s n = rollback_loop (i + 1) k s1 (n + 1)"
      using True popped by (subst rollback_loop.simps) (simp add: s1_def)
    have ih: "rollback_loop (i + 1) k s1 (n + 1) =
        ((foldl undoOperation s1 (take m' (rev (butlast ?h))))
           \<lparr>operationHistory := take (length (butlast ?h) - m') (butlast ?h)\<rparr>, n + 1 + m')"
      using "1.IH"[OF True popped refl, folded s1_def] by (simp add: h1 m'_def)
    have tk: "take (length (butlast ?h) - m') (butlast ?h) = take (length ?h - Suc m') ?h"
      using ne by (simp add: take_butlast)
    have fl: "foldl undoOperation s1 (take m' (rev (butlast ?h)))
              = (foldl undoOperation s (take (Suc m') (rev ?h)))\<lparr>operationHistory := butlast ?h\<rparr>"
      by (simp add: revh s1_def undoOperation_history_update foldl_undo_history_update)
    show ?thesis
      unfolding step ih m tk fl by simp
  qed
qed

text \<open>
  Claim C4. \<open>rollback s k\<close> always reports success; the count it returns is
  \<open>min k (size of the log)\<close> (0 for a negative \<open>k\<close>), so the partial count when \<open>k\<close>
  exceeds the log size; the log loses exactly that many records from its end, and the state
  is the one obtained by undoing those records last-in-first-out. Undoing one record sets
  the slot found under the recorded slot id to the recorded availability, sets the request
  found under the recorded request id to the recorded state, and clears \<open>allocatedSlotId\<close>,
  \<open>allocatedZoneId\<close>, \<open>allocationTime\<close>, \<open>isCrossZone\<close> and \<open>crossZonePenalty\<close> when
  that state is \<open>REQUESTED\<close>.
\<close>

theorem rollback_pops_and_restores:
  "(let m = nat (min k (int (length (operationHistory s))))
    in rollback s k =
         (\<lparr>rb_success = True, rb_message = RolledBack m, rolledBack = m\<rparr>,
          (foldl undoOperation s (take m (rev (operationHistory s))))
             \<lparr>operationHistory := take (length (operationHistory s) - m) (operationHistory s)\<rparr>))
   \<and> slotStore (undoOperation st operation) =
        (case findSlot st (slotId operation) of
           None \<Rightarrow> slotStore st
         | Some (slot, zone, area) \<Rightarrow>
             (slotStore st)(slot := (slotStore st slot)\<lparr>isAvailable := previousSlotState operation\<rparr>))
   \<and> requests (undoOperation st operation) =
        (case requests st (requestId operation) of
           None \<Rightarrow> requests st
         | Some req \<Rightarrow>
             (requests st)(requestId operation \<mapsto>
                (if previousRequestState operation = REQUESTED
                 then req\<lparr>state := REQUESTED, allocatedSlotId := None, allocatedZoneId := None,
                          allocationTime := None, isCrossZone := False, crossZonePenalty := 0\<rparr>
                 else req\<lparr>state := previousRequestState operation\<rparr>)))
   \<and> zones (undoOperation st operation) = zones st"
proof -
  have m: "min (nat (k - 0)) (length (operationHistory s))
             = nat (min k (int (length (operationHistory s))))"
    by (cases "k \<le> int (length (operationHistory s))") (simp_all add: min_def, linarith+)
  have "rollback s k =
         (\<lparr>rb_success = True, rb_message = RolledBack (nat (min k (int (length (operationHistory s))))),
           rolledBack = nat (min k (int (length (operationHistory s))))\<rparr>,
          (foldl undoOperation s (take (nat (min k (int (length (operationHistory s))))) (rev (operationHistory s))))
             \<lparr>operationHistory := take (length (operationHistory s) - nat (min k (int (length (operationHistory s))))) (operationHistory s)\<rparr>)"
    unfolding rollback_def rollback_loop_char m by simp
  moreover have "slotStore (undoOperation st operation) =
        (case findSlot st (slotId operation) of
           None \<Rightarrow> slotStore st
         | Some (slot, zone, area) \<Rightarrow>
             (slotStore st)(slot := (slotStore st slot)\<lparr>isAvailable := previousSlotState operation\<rparr>))"
    by (simp add: undoOperation_def restoreRequest_def restoreSlot_def setAvailable_def Let_def
        split: option.splits)
  moreover have "requests (undoOperation st operation) =
        (case requests st (requestId operation) of
           None \<Rightarrow> requests st
         | Some req \<Rightarrow>
             (requests st)(requestId operation \<mapsto>
                (if previousRequestState operation = REQUESTED
                 then req\<lparr>state := REQUESTED, allocatedSlotId := None, allocatedZoneId := None,
                          allocationTime := None, isCrossZone := False, crossZonePenalty := 0\<rparr>
                 else req\<lparr>state := previousRequestState operation\<rparr>)))"
    by (simp add: undoOperation_def restoreRequest_def restoreSlot_def setAvailable_def Let_def
        split: option.splits)
  moreover have "zones (undoOperation st operation) = zones st"
    by (simp add: undoOperation_def restoreRequest_def restoreSlot_def setAvailable_def Let_def
        split: option.splits)
  ultimately show ?thesis by (simp add: Let_def)
qed

lemma rollback_one:
  assumes "operationHistory s = hist @ [operation]"
  shows "rollback s 1 = (\<lparr>rb_success = True, rb_message = RolledBack 1, rolledBack = 1\<rparr>,
                          (undoOperation s operation)\<lparr>operationHistory := hist\<rparr>)"
  unfolding rollback_def rollback_loop_char using assms by simp

section \<open>The allocation invariant\<close>

lemma find_append_if:
  "find P (xs @ ys) = (case find P xs of Some x \<Rightarrow> Some x | None \<Rightarrow> find P ys)"
  by (induction xs) simp_all

lemma findSlot_areas_fst:
  "map_option fst (findSlot_areas st sid zone as)
     = find (\<lambda>r. s_id (st r) = sid) (concat (map slots as))"
  by (induction as) (simp_all add: find_append_if split: option.splits)

lemma slotAt_find: "slotAt zs st sid = find (\<lambda>r. s_id (st r) = sid) (refsOf zs)"
  unfolding slotAt_def refsOf_def
proof (induction zs)
  case Nil
  show ?case by simp
next
  case (Cons kz zs)
  have "map_option fst (findSlot_areas st sid (snd kz) (areas (snd kz)))
          = find (\<lambda>r. s_id (st r) = sid) (zoneSlotRefs (snd kz))"
    by (simp add: findSlot_areas_fst zoneSlotRefs_def)
  with Cons show ?case
    by (auto simp: find_append_if split: option.splits)
qed

lemma slotAt_upd [simp]:
  "slotAt zs (st(a := (st a)\<lparr>isAvailable := v\<rparr>)) sid = slotAt zs st sid"
  unfolding slotAt_find by (rule find_cong) auto

lemma uniqueIds_upd [simp]:
  "uniqueIds zs (st(a := (st a)\<lparr>isAvailable := v\<rparr>)) = uniqueIds zs st"
  by (auto simp: uniqueIds_def)

lemma slotAt_SomeD:
  "slotAt zs st sid = Some a \<Longrightarrow> a \<in> set (refsOf zs) \<and> s_id (st a) = sid"
  unfolding slotAt_find by (auto simp: find_Some_iff)

lemma slotAt_unique:
  assumes "uniqueIds zs st" and "a \<in> set (refsOf zs)"
  shows "slotAt zs st (s_id (st a)) = Some a"
proof (cases "slotAt zs st (s_id (st a))")
  case None
  with assms(2) show ?thesis unfolding slotAt_find by (auto simp: find_None_iff)
next
  case (Some b)
  from slotAt_SomeD[OF Some] assms show ?thesis
    using Some by (auto simp: uniqueIds_def)
qed

lemma activeIn_upd:
  "activeIn (rq(rid \<mapsto> req)) x = (if x = rid then active req else activeIn rq x)"
  by (simp add: activeIn_def)

lemma inv_create:
  assumes "invC zs st rq h" and "rq newId = None"
    and "state req = REQUESTED" and "r_id req = newId" and "allocatedSlotId req = None"
  shows "invC zs st (rq(newId \<mapsto> req)) h"
proof -
  have fresh: "newId \<notin> requestId ` set h"
    using assms(1,2) by (auto simp: invC_def)
  have act: "\<And>x. activeIn (rq(newId \<mapsto> req)) x = activeIn rq x"
    using assms(2,3) by (auto simp: activeIn_def active_def)
  show ?thesis
    using assms fresh unfolding invC_def act
    by (auto simp: active_def)
qed


lemma invC_unique: "invC zs st rq h \<Longrightarrow> uniqueIds zs st"
  and invC_distinct: "invC zs st rq h \<Longrightarrow> distinct (map requestId h)"
  and invC_ops: "invC zs st rq h \<Longrightarrow> operation \<in> set h \<Longrightarrow>
        previousRequestState operation = REQUESTED \<and> rq (requestId operation) \<noteq> None"
  and invC_later: "invC zs st rq h \<Longrightarrow> h = xs @ operation # ys \<Longrightarrow> slotId operation \<in> slotId ` set ys \<Longrightarrow>
        \<not> activeIn rq (requestId operation)"
  and invC_key: "invC zs st rq h \<Longrightarrow> rq rid = Some req \<Longrightarrow> r_id req = rid"
  and invC_requested: "invC zs st rq h \<Longrightarrow> rq rid = Some req \<Longrightarrow> state req = REQUESTED \<Longrightarrow>
        allocatedSlotId req = None \<and> rid \<notin> requestId ` set h"
  and invC_active: "invC zs st rq h \<Longrightarrow> rq rid = Some req \<Longrightarrow> active req \<Longrightarrow>
        allocatedZoneId req \<noteq> None
        \<and> (\<exists>operation \<in> set h. requestId operation = rid
              \<and> allocatedSlotId req = Some (slotId operation)
              \<and> (\<exists>slot. slotAt zs st (slotId operation) = Some slot \<and> \<not> isAvailable (st slot)))"
  unfolding invC_def by blast+

lemma invC_I:
  assumes "uniqueIds zs st" and "distinct (map requestId h)"
    and "\<And>operation. operation \<in> set h \<Longrightarrow>
           previousRequestState operation = REQUESTED \<and> rq (requestId operation) \<noteq> None"
    and "\<And>xs operation ys. h = xs @ operation # ys \<Longrightarrow> slotId operation \<in> slotId ` set ys \<Longrightarrow>
           \<not> activeIn rq (requestId operation)"
    and "\<And>rid req. rq rid = Some req \<Longrightarrow> r_id req = rid"
    and "\<And>rid req. rq rid = Some req \<Longrightarrow> state req = REQUESTED \<Longrightarrow>
           allocatedSlotId req = None \<and> rid \<notin> requestId ` set h"
    and "\<And>rid req. rq rid = Some req \<Longrightarrow> active req \<Longrightarrow>
           allocatedZoneId req \<noteq> None
           \<and> (\<exists>operation \<in> set h. requestId operation = rid
                 \<and> allocatedSlotId req = Some (slotId operation)
                 \<and> (\<exists>slot. slotAt zs st (slotId operation) = Some slot \<and> \<not> isAvailable (st slot)))"
  shows "invC zs st rq h"
  unfolding invC_def using assms by blast

text \<open>Two different active requests never hold the same slot id.\<close>

lemma invC_exclusive:
  assumes inv: "invC zs st rq h"
    and r1: "rq rid1 = Some req1" "active req1"
    and r2: "rq rid2 = Some req2" "active req2"
    and same: "allocatedSlotId req1 = allocatedSlotId req2"
  shows "rid1 = rid2"
proof (rule ccontr)
  assume ne: "rid1 \<noteq> rid2"
  from invC_active[OF inv r1] obtain op1 where
    op1: "op1 \<in> set h" "requestId op1 = rid1" "allocatedSlotId req1 = Some (slotId op1)" by blast
  from invC_active[OF inv r2] obtain op2 where
    op2: "op2 \<in> set h" "requestId op2 = rid2" "allocatedSlotId req2 = Some (slotId op2)" by blast
  from same op1 op2 have sl: "slotId op1 = slotId op2" by simp
  from ne op1 op2 have opne: "op1 \<noteq> op2" by auto
  have a1: "activeIn rq (requestId op1)" using r1 op1 by (simp add: activeIn_def)
  have a2: "activeIn rq (requestId op2)" using r2 op2 by (simp add: activeIn_def)
  from op1(1) obtain xs ys where h: "h = xs @ op1 # ys" by (auto simp: in_set_conv_decomp)
  show False
  proof (cases "op2 \<in> set ys")
    case True
    with sl have "slotId op1 \<in> slotId ` set ys" by force
    from invC_later[OF inv h this] a1 show False by simp
  next
    case False
    with op2(1) h opne have "op2 \<in> set xs" by auto
    then obtain us vs where xs: "xs = us @ op2 # vs" by (auto simp: in_set_conv_decomp)
    then have h2: "h = us @ op2 # (vs @ op1 # ys)" using h by simp
    have "slotId op2 \<in> slotId ` set (vs @ op1 # ys)" using sl by force
    from invC_later[OF inv h2 this] a2 show False by simp
  qed
qed

lemma inv_change:
  assumes inv: "invC zs st rq h" and cur: "rq rid = Some req"
    and id: "r_id req' = r_id req" and st: "state req' \<noteq> REQUESTED"
    and act: "active req' \<Longrightarrow> active req \<and> allocatedSlotId req' = allocatedSlotId req
                \<and> allocatedZoneId req' = allocatedZoneId req"
  shows "invC zs st (rq(rid \<mapsto> req')) h"
proof (rule invC_I)
  show "uniqueIds zs st" by (rule invC_unique[OF inv])
  show "distinct (map requestId h)" by (rule invC_distinct[OF inv])
next
  fix operation assume "operation \<in> set h"
  from invC_ops[OF inv this]
  show "previousRequestState operation = REQUESTED \<and> (rq(rid \<mapsto> req')) (requestId operation) \<noteq> None"
    by simp
next
  fix xs operation ys
  assume "h = xs @ operation # ys" "slotId operation \<in> slotId ` set ys"
  from invC_later[OF inv this] have "\<not> activeIn rq (requestId operation)" .
  then show "\<not> activeIn (rq(rid \<mapsto> req')) (requestId operation)"
    using act cur by (auto simp: activeIn_def split: if_splits)
next
  fix x r assume "(rq(rid \<mapsto> req')) x = Some r"
  then show "r_id r = x" using invC_key[OF inv] cur id by (auto split: if_splits)
next
  fix x r assume "(rq(rid \<mapsto> req')) x = Some r" "state r = REQUESTED"
  then show "allocatedSlotId r = None \<and> x \<notin> requestId ` set h"
    using invC_requested[OF inv, of x r] st by (auto split: if_splits)
next
  fix x r assume a: "(rq(rid \<mapsto> req')) x = Some r" "active r"
  show "allocatedZoneId r \<noteq> None
         \<and> (\<exists>operation \<in> set h. requestId operation = x
               \<and> allocatedSlotId r = Some (slotId operation)
               \<and> (\<exists>slot. slotAt zs st (slotId operation) = Some slot \<and> \<not> isAvailable (st slot)))"
  proof (cases "x = rid")
    case True
    with a have "r = req'" by simp
    with a act have "active req" "allocatedSlotId r = allocatedSlotId req"
      "allocatedZoneId r = allocatedZoneId req" by simp_all
    with invC_active[OF inv cur] True show ?thesis by simp
  next
    case False
    with a have "rq x = Some r" by simp
    from invC_active[OF inv this a(2)] show ?thesis .
  qed
qed


lemma inv_free:
  assumes inv: "invC zs st rq h" and cur: "rq rid = Some req" and was: "active req"
    and id: "r_id req' = r_id req" and st: "state req' \<noteq> REQUESTED" and nact: "\<not> active req'"
    and sid: "allocatedSlotId req = Some sid" and at: "slotAt zs st sid = Some a"
  shows "invC zs (st(a := (st a)\<lparr>isAvailable := True\<rparr>)) (rq(rid \<mapsto> req')) h"
proof (rule invC_I)
  show "uniqueIds zs (st(a := (st a)\<lparr>isAvailable := True\<rparr>))"
    using invC_unique[OF inv] by simp
  show "distinct (map requestId h)" by (rule invC_distinct[OF inv])
next
  fix operation assume "operation \<in> set h"
  from invC_ops[OF inv this]
  show "previousRequestState operation = REQUESTED \<and> (rq(rid \<mapsto> req')) (requestId operation) \<noteq> None"
    by simp
next
  fix xs operation ys
  assume "h = xs @ operation # ys" "slotId operation \<in> slotId ` set ys"
  from invC_later[OF inv this] have "\<not> activeIn rq (requestId operation)" .
  then show "\<not> activeIn (rq(rid \<mapsto> req')) (requestId operation)"
    using nact by (auto simp: activeIn_def split: if_splits)
next
  fix x r assume "(rq(rid \<mapsto> req')) x = Some r"
  then show "r_id r = x" using invC_key[OF inv] cur id by (auto split: if_splits)
next
  fix x r assume "(rq(rid \<mapsto> req')) x = Some r" "state r = REQUESTED"
  then show "allocatedSlotId r = None \<and> x \<notin> requestId ` set h"
    using invC_requested[OF inv, of x r] st by (auto split: if_splits)
next
  fix x r assume a: "(rq(rid \<mapsto> req')) x = Some r" "active r"
  with nact have ne: "x \<noteq> rid" by auto
  with a have rx: "rq x = Some r" by simp
  from invC_active[OF inv rx a(2)] obtain operation slot where
    o: "allocatedZoneId r \<noteq> None" "operation \<in> set h" "requestId operation = x"
       "allocatedSlotId r = Some (slotId operation)"
       "slotAt zs st (slotId operation) = Some slot" "\<not> isAvailable (st slot)"
    by blast
  have "slot \<noteq> a"
  proof
    assume "slot = a"
    with slotAt_SomeD[OF at] slotAt_SomeD[OF o(5)] have "slotId operation = sid" by simp
    with o(4) sid have "allocatedSlotId r = allocatedSlotId req" by simp
    from invC_exclusive[OF inv rx a(2) cur was this] ne show False by simp
  qed
  with o show "allocatedZoneId r \<noteq> None
         \<and> (\<exists>operation \<in> set h. requestId operation = x
               \<and> allocatedSlotId r = Some (slotId operation)
               \<and> (\<exists>slot. slotAt zs (st(a := (st a)\<lparr>isAvailable := True\<rparr>)) (slotId operation) = Some slot
                     \<and> \<not> isAvailable ((st(a := (st a)\<lparr>isAvailable := True\<rparr>)) slot)))"
    by auto
qed

lemma inv_alloc:
  assumes inv: "invC zs st rq h" and cur: "rq rid = Some req" and rs: "state req = REQUESTED"
    and mem: "a \<in> set (refsOf zs)" and av: "isAvailable (st a)"
    and id: "r_id req' = r_id req" and st': "state req' = ALLOCATED"
    and sl: "allocatedSlotId req' = Some (s_id (st a))" and zn: "allocatedZoneId req' \<noteq> None"
    and oreq: "requestId operation = r_id req" and oslot: "slotId operation = s_id (st a)"
    and oprev: "previousRequestState operation = REQUESTED"
  shows "invC zs (st(a := (st a)\<lparr>isAvailable := False\<rparr>)) (rq(rid \<mapsto> req')) (h @ [operation])"
proof (rule invC_I)
  let ?st = "st(a := (st a)\<lparr>isAvailable := False\<rparr>)"
  have key: "r_id req = rid" by (rule invC_key[OF inv cur])
  have fresh: "rid \<notin> requestId ` set h" using invC_requested[OF inv cur rs] by simp
  have ata: "slotAt zs st (s_id (st a)) = Some a" by (rule slotAt_unique[OF invC_unique[OF inv] mem])
  show "uniqueIds zs ?st" using invC_unique[OF inv] by simp
  show "distinct (map requestId (h @ [operation]))"
    using invC_distinct[OF inv] fresh oreq key by auto
  show "previousRequestState o' = REQUESTED \<and> (rq(rid \<mapsto> req')) (requestId o') \<noteq> None"
    if "o' \<in> set (h @ [operation])" for o'
    using that invC_ops[OF inv, of o'] oprev oreq key by auto
  show "\<not> activeIn (rq(rid \<mapsto> req')) (requestId o')"
    if dec: "h @ [operation] = xs @ o' # ys" and later: "slotId o' \<in> slotId ` set ys" for xs o' ys
  proof -
    from later have "ys \<noteq> []" by auto
    then obtain ys' where ys: "ys = ys' @ [last ys]" by (metis append_butlast_last_id)
    with dec have "h @ [operation] = (xs @ o' # ys') @ [last ys]" by simp
    then have h: "h = xs @ o' # ys'" and lst: "last ys = operation" by simp_all
    from h have inh: "o' \<in> set h" by simp
    with fresh have ne: "requestId o' \<noteq> rid" by auto
    have "\<not> activeIn rq (requestId o')"
    proof (cases "slotId o' \<in> slotId ` set ys'")
      case True
      from invC_later[OF inv h True] show ?thesis .
    next
      case False
      with later ys lst have same: "slotId o' = s_id (st a)" using oslot by auto
      show ?thesis
      proof
        assume "activeIn rq (requestId o')"
        then obtain r where r: "rq (requestId o') = Some r" "active r"
          by (auto simp: activeIn_def split: option.splits)
        from invC_active[OF inv r] obtain o2 slot where
          o2: "o2 \<in> set h" "requestId o2 = requestId o'"
              "slotAt zs st (slotId o2) = Some slot" "\<not> isAvailable (st slot)"
          by blast
        from invC_distinct[OF inv] have "inj_on requestId (set h)" by (simp add: distinct_map)
        with o2(1,2) inh have "o2 = o'" by (auto dest: inj_onD)
        with o2(3) same ata have "slot = a" by simp
        with o2(4) av show False by simp
      qed
    qed
    with ne show ?thesis by (simp add: activeIn_def)
  qed
  show "r_id r = x" if "(rq(rid \<mapsto> req')) x = Some r" for x r
    using that invC_key[OF inv] cur id by (auto split: if_splits)
  show "allocatedSlotId r = None \<and> x \<notin> requestId ` set (h @ [operation])"
    if "(rq(rid \<mapsto> req')) x = Some r" "state r = REQUESTED" for x r
    using that invC_requested[OF inv, of x r] st' oreq key by (auto split: if_splits)
  show "allocatedZoneId r \<noteq> None
         \<and> (\<exists>o' \<in> set (h @ [operation]). requestId o' = x
               \<and> allocatedSlotId r = Some (slotId o')
               \<and> (\<exists>slot. slotAt zs ?st (slotId o') = Some slot \<and> \<not> isAvailable (?st slot)))"
    if a: "(rq(rid \<mapsto> req')) x = Some r" "active r" for x r
  proof (cases "x = rid")
    case True
    with a have "r = req'" by simp
    then show ?thesis using True zn sl oreq oslot key ata by auto
  next
    case False
    with a have rx: "rq x = Some r" by simp
    from invC_active[OF inv rx a(2)] obtain o' slot where
      o: "allocatedZoneId r \<noteq> None" "o' \<in> set h" "requestId o' = x"
         "allocatedSlotId r = Some (slotId o')"
         "slotAt zs st (slotId o') = Some slot" "\<not> isAvailable (st slot)"
      by blast
    from o(6) av have "slot \<noteq> a" by auto
    with o show ?thesis by auto
  qed
qed

lemma inv_undo:
  assumes inv: "invC zs st rq (h @ [operation])"
    and cur: "rq (requestId operation) = Some req"
    and id: "r_id req' = r_id req" and rs: "state req' = REQUESTED"
    and cl: "allocatedSlotId req' = None"
    and store: "st' = (case slotAt zs st (slotId operation) of
                         None \<Rightarrow> st
                       | Some a \<Rightarrow> st(a := (st a)\<lparr>isAvailable := v\<rparr>))"
  shows "invC zs st' (rq(requestId operation \<mapsto> req')) h"
proof (rule invC_I)
  have uq: "uniqueIds zs st' = uniqueIds zs st" using store by (simp split: option.splits)
  have at: "\<And>sid. slotAt zs st' sid = slotAt zs st sid" using store by (simp split: option.splits)
  have dist: "distinct (map requestId (h @ [operation]))" by (rule invC_distinct[OF inv])
  have nact: "\<not> active req'" using rs by (simp add: active_def)
  show "uniqueIds zs st'" using invC_unique[OF inv] uq by simp
  show "distinct (map requestId h)" using dist by simp
  show "previousRequestState o' = REQUESTED \<and> (rq(requestId operation \<mapsto> req')) (requestId o') \<noteq> None"
    if "o' \<in> set h" for o'
    using that invC_ops[OF inv, of o'] by auto
  show "\<not> activeIn (rq(requestId operation \<mapsto> req')) (requestId o')"
    if dec: "h = xs @ o' # ys" and later: "slotId o' \<in> slotId ` set ys" for xs o' ys
  proof -
    from dec have "h @ [operation] = xs @ o' # (ys @ [operation])" by simp
    moreover from later have "slotId o' \<in> slotId ` set (ys @ [operation])" by auto
    ultimately have "\<not> activeIn rq (requestId o')" by (rule invC_later[OF inv])
    then show ?thesis using nact by (auto simp: activeIn_def split: if_splits)
  qed
  show "r_id r = x" if "(rq(requestId operation \<mapsto> req')) x = Some r" for x r
    using that invC_key[OF inv] cur id by (auto split: if_splits)
  show "allocatedSlotId r = None \<and> x \<notin> requestId ` set h"
    if "(rq(requestId operation \<mapsto> req')) x = Some r" "state r = REQUESTED" for x r
    using that invC_requested[OF inv, of x r] cl dist by (auto split: if_splits)
  show "allocatedZoneId r \<noteq> None
         \<and> (\<exists>o' \<in> set h. requestId o' = x
               \<and> allocatedSlotId r = Some (slotId o')
               \<and> (\<exists>slot. slotAt zs st' (slotId o') = Some slot \<and> \<not> isAvailable (st' slot)))"
    if a: "(rq(requestId operation \<mapsto> req')) x = Some r" "active r" for x r
  proof -
    from a nact have ne: "x \<noteq> requestId operation" by auto
    with a have rx: "rq x = Some r" by simp
    from invC_active[OF inv rx a(2)] obtain o' slot where
      o: "allocatedZoneId r \<noteq> None" "o' \<in> set (h @ [operation])" "requestId o' = x"
         "allocatedSlotId r = Some (slotId o')"
         "slotAt zs st (slotId o') = Some slot" "\<not> isAvailable (st slot)"
      by blast
    from o(2,3) ne have inh: "o' \<in> set h" by auto
    have same: "st' slot = st slot"
    proof (cases "slotAt zs st (slotId operation)")
      case None
      with store show ?thesis by simp
    next
      case (Some b)
      have "slot \<noteq> b"
      proof
        assume "slot = b"
        with slotAt_SomeD[OF Some] slotAt_SomeD[OF o(5)] have eq: "slotId o' = slotId operation"
          by simp
        from inh obtain xs ys where h: "h = xs @ o' # ys" by (auto simp: in_set_conv_decomp)
        then have "h @ [operation] = xs @ o' # (ys @ [operation])" by simp
        moreover have "slotId o' \<in> slotId ` set (ys @ [operation])" using eq by simp
        ultimately have "\<not> activeIn rq (requestId o')" by (rule invC_later[OF inv])
        with rx a(2) o(3) show False by (simp add: activeIn_def)
      qed
      with Some store show ?thesis by simp
    qed
    with o inh show ?thesis by (auto simp: at)
  qed
qed

lemma getAvailable_mem:
  assumes "slot \<in> set (getAvailableSlotsInZone s zid)"
  shows "slot \<in> set (refsOf (zones s)) \<and> isAvailable (slotStore s slot)"
proof (cases "map_of (zones s) zid")
  case None
  with assms show ?thesis by (simp add: getAvailable_unknown)
next
  case (Some zone)
  then have "(zid, zone) \<in> set (zones s)" by (rule map_of_SomeD)
  then have "set (zoneSlotRefs zone) \<subseteq> set (refsOf (zones s))"
    by (force simp: refsOf_def)
  with assms Some show ?thesis by (auto simp: getAvailable_filter)
qed

lemma tryAdjacent_result:
  "tryAdjacentZones s zs = (av, c) \<Longrightarrow> av = [] \<or> (\<exists>adj. av = getAvailableSlotsInZone s adj)"
  by (induction zs) (auto simp: Let_def split: if_splits)

lemma selectSlots_mem:
  assumes "selectSlots s req = (slot # rest, c)"
  shows "slot \<in> set (refsOf (zones s)) \<and> isAvailable (slotStore s slot)"
proof -
  have "\<exists>zid. getAvailableSlotsInZone s zid = slot # rest"
  proof (cases "getAvailableSlotsInZone s (requestedZoneId req) = []")
    case False
    with assms have "getAvailableSlotsInZone s (requestedZoneId req) = slot # rest"
      by (simp add: selectSlots_def Let_def)
    then show ?thesis ..
  next
    case True
    with assms obtain zone :: Zone where "tryAdjacentZones s (adjacentZones zone) = (slot # rest, c)"
      by (auto simp: selectSlots_def Let_def split: option.splits)
    from tryAdjacent_result[OF this] show ?thesis by auto
  qed
  then obtain zid where "getAvailableSlotsInZone s zid = slot # rest" ..
  then have "slot \<in> set (getAvailableSlotsInZone s zid)" by simp
  then show ?thesis by (rule getAvailable_mem)
qed

lemma sysInv_create:
  assumes "sysInv s" and "requests s newId = None"
  shows "sysInv (snd (createRequest s vehId zoneId newId now))"
  using assms unfolding sysInv_def createRequest_def
  by (simp add: Let_def inv_create)

lemma sysInv_allocate:
  assumes "sysInv s"
  shows "sysInv (snd (allocateSlot s reqId newOpId opTime allocTime))"
proof (cases "requests s reqId")
  case None
  with assms show ?thesis by (simp add: allocateSlot_def)
next
  case (Some req)
  show ?thesis
  proof (cases "state req = REQUESTED")
    case False
    then have "\<not> canTransition (state req) ALLOCATED" by (simp add: canTransition_table)
    with Some assms show ?thesis by (simp add: allocateSlot_def)
  next
    case True
    obtain av c where sel: "selectSlots s req = (av, c)" by (cases "selectSlots s req")
    show ?thesis
    proof (cases av)
      case Nil
      with sel Some True assms show ?thesis by (simp add: allocate_none_selected)
    next
      case (Cons slot rest)
      with sel have sel': "selectSlots s req = (slot # rest, c)" by simp
      from selectSlots_mem[OF sel'] have mem: "slot \<in> set (refsOf (zones s))"
        and av: "isAvailable (slotStore s slot)" by simp_all
      show ?thesis
        unfolding allocate_success[OF Some True sel'] sysInv_def
        using inv_alloc[OF assms[unfolded sysInv_def] Some True mem av]
        by (simp add: Let_def)
    qed
  qed
qed

lemma sysInv_occupy:
  assumes "sysInv s"
  shows "sysInv (snd (occupySlot s reqId now))"
proof (cases "requests s reqId")
  case None
  with assms show ?thesis by (simp add: occupySlot_def)
next
  case (Some req)
  show ?thesis
  proof (cases "state req = ALLOCATED")
    case False
    then have "\<not> canTransition (state req) OCCUPIED" by (simp add: canTransition_table)
    with Some assms show ?thesis by (simp add: occupySlot_def)
  next
    case True
    then have "canTransition (state req) OCCUPIED" by (simp add: canTransition_table)
    then show ?thesis
      using Some True inv_change[OF assms[unfolded sysInv_def] Some,
          of "req\<lparr>state := OCCUPIED, occupiedTime := Some now\<rparr>"]
      by (simp add: occupySlot_def sysInv_def Let_def active_def)
  qed
qed

lemma sysInv_free_then_close:
  assumes inv: "sysInv s" and cur: "requests s reqId = Some req"
    and fin: "state req' = RELEASED \<or> state req' = CANCELLED" and id: "r_id req' = r_id req"
    and pre: "active req \<or> state req = REQUESTED"
  shows "sysInv ((freeAllocatedSlot s req)\<lparr>requests := (requests (freeAllocatedSlot s req))(reqId \<mapsto> req')\<rparr>)"
proof -
  have nr: "state req' \<noteq> REQUESTED" and na: "\<not> active req'"
    using fin by (auto simp: active_def)
  have plain: "sysInv (s\<lparr>requests := (requests s)(reqId \<mapsto> req')\<rparr>)"
    using inv_change[OF inv[unfolded sysInv_def] cur id nr] na by (simp add: sysInv_def)
  show ?thesis
  proof (cases "allocatedSlotId req")
    case None
    with plain show ?thesis by (simp add: freeAllocatedSlot_def)
  next
    case (Some sid)
    with invC_requested[OF inv[unfolded sysInv_def] cur] pre have act: "active req" by auto
    show ?thesis
    proof (cases "sid = [] \<or> findSlot s sid = None")
      case True
      with Some plain show ?thesis by (auto simp: freeAllocatedSlot_def)
    next
      case False
      then obtain slot zone area where f: "findSlot s sid = Some (slot, zone, area)" and "sid \<noteq> []"
        by auto
      then have at: "slotAt (zones s) (slotStore s) sid = Some slot"
        by (simp add: slotAt_def findSlot_def)
      from inv_free[OF inv[unfolded sysInv_def] cur act id nr na Some at] f \<open>sid \<noteq> []\<close> Some
      show ?thesis
        by (simp add: freeAllocatedSlot_def setAvailable_def sysInv_def)
    qed
  qed
qed

lemma sysInv_release:
  assumes "sysInv s"
  shows "sysInv (snd (releaseSlot s reqId now))"
proof (cases "requests s reqId")
  case None
  with assms show ?thesis by (simp add: releaseSlot_def)
next
  case (Some req)
  show ?thesis
  proof (cases "canTransition (state req) RELEASED")
    case False
    with Some assms show ?thesis by (simp add: releaseSlot_def)
  next
    case True
    then have "active req" by (auto simp: canTransition_table active_def)
    with True Some sysInv_free_then_close[OF assms Some, of "req\<lparr>state := RELEASED, releaseTime := Some now\<rparr>"]
    show ?thesis by (simp add: releaseSlot_def Let_def)
  qed
qed

lemma sysInv_cancel:
  assumes "sysInv s"
  shows "sysInv (snd (cancelRequest s reqId))"
proof (cases "requests s reqId")
  case None
  with assms show ?thesis by (simp add: cancelRequest_def)
next
  case (Some req)
  show ?thesis
  proof (cases "canTransition (state req) CANCELLED")
    case False
    with Some assms show ?thesis by (simp add: cancelRequest_def)
  next
    case True
    then have "active req \<or> state req = REQUESTED" by (auto simp: canTransition_table active_def)
    with True Some sysInv_free_then_close[OF assms Some, of "req\<lparr>state := CANCELLED\<rparr>"]
    show ?thesis by (simp add: cancelRequest_def Let_def)
  qed
qed

lemma sysInv_undo_step:
  assumes inv: "sysInv s" and h: "operationHistory s = hist @ [operation]"
  shows "sysInv (undoOperation (s\<lparr>operationHistory := hist\<rparr>) operation)"
proof -
  from inv h have i: "invC (zones s) (slotStore s) (requests s) (hist @ [operation])"
    by (simp add: sysInv_def)
  from invC_ops[OF i, of operation] obtain req where
    cur: "requests s (requestId operation) = Some req"
    and prev: "previousRequestState operation = REQUESTED" by auto
  have at: "slotAt (zones s) (slotStore s) (slotId operation) = map_option fst (findSlot s (slotId operation))"
    by (simp add: slotAt_def findSlot_def)
  show ?thesis
    using inv_undo[OF i cur, of
        "req\<lparr>state := REQUESTED, allocatedSlotId := None, allocatedZoneId := None,
             allocationTime := None, isCrossZone := False, crossZonePenalty := 0\<rparr>"
        _ "previousSlotState operation"] cur prev at
    by (auto simp: sysInv_def undoOperation_def restoreRequest_def restoreSlot_def
          setAvailable_def Let_def split: option.splits)
qed

lemma sysInv_rollback_loop:
  "sysInv s \<Longrightarrow> sysInv (fst (rollback_loop i k s n))"
proof (induction i k s n rule: rollback_loop.induct)
  case (1 i k s n)
  show ?case
  proof (cases "i < k \<and> length (operationHistory s) > 0")
    case False
    with "1.prems" show ?thesis by (subst rollback_loop.simps) auto
  next
    case True
    then have ne: "operationHistory s \<noteq> []" by auto
    then have popped: "pop (operationHistory s) = Some (last (operationHistory s), butlast (operationHistory s))"
      by (simp add: pop_def)
    have h: "operationHistory s = butlast (operationHistory s) @ [last (operationHistory s)]"
      using ne by simp
    have "sysInv (undoOperation (s\<lparr>operationHistory := butlast (operationHistory s)\<rparr>)
                     (last (operationHistory s)))"
      by (rule sysInv_undo_step[OF "1.prems" h])
    from "1.IH"[OF True popped refl this] True popped
    show ?thesis by (subst rollback_loop.simps) simp
  qed
qed

lemma sysInv_rollback:
  "sysInv s \<Longrightarrow> sysInv (snd (rollback s k))"
  using sysInv_rollback_loop[of s 0 k 0]
  by (cases "rollback_loop 0 k s 0") (simp add: rollback_def)

lemma reachable_sysInv:
  "reachable s0 s \<Longrightarrow> sysInv s0 \<Longrightarrow> sysInv s"
  by (induction rule: reachable.induct)
     (simp_all add: sysInv_create sysInv_allocate sysInv_occupy sysInv_release sysInv_cancel
        sysInv_rollback)

lemma foldl_addZone_fields:
  "requests (foldl addZone s zoneList) = requests s
   \<and> operationHistory (foldl addZone s zoneList) = operationHistory s
   \<and> slotStore (foldl addZone s zoneList) = slotStore s"
  by (induction zoneList arbitrary: s) (simp_all add: addZone_def)

lemma loadTopology_fields:
  "requests (loadTopology store zoneList) = Map.empty"
  "operationHistory (loadTopology store zoneList) = []"
  "slotStore (loadTopology store zoneList) = store"
  by (simp_all add: loadTopology_def foldl_addZone_fields new_ParkingSystem_def)

lemma sysInv_loadTopology:
  "uniqueSlotIds (loadTopology store zoneList) \<Longrightarrow> sysInv (loadTopology store zoneList)"
  by (simp add: sysInv_def invC_def uniqueSlotIds_def loadTopology_fields)

text \<open>
  Claim C3. In every state reached from a loaded topology with unique slot ids by any
  sequence of \<open>createRequest\<close>, \<open>allocateSlot\<close>, \<open>occupySlot\<close>, \<open>releaseSlot\<close>,
  \<open>cancelRequest\<close> and \<open>rollback\<close>: every request in state \<open>ALLOCATED\<close> or \<open>OCCUPIED\<close>
  has an allocated slot id and an allocated zone id, the slot found under that id is
  unavailable, and two different such requests never carry the same slot id.
\<close>

theorem allocation_invariant_reachable:
  assumes "uniqueSlotIds (loadTopology store zoneList)"
    and "reachable (loadTopology store zoneList) s"
  shows "(\<forall>rid req. requests s rid = Some req \<and> (state req = ALLOCATED \<or> state req = OCCUPIED) \<longrightarrow>
            (\<exists>sid zid slot zone area.
                allocatedSlotId req = Some sid \<and> allocatedZoneId req = Some zid
                \<and> findSlot s sid = Some (slot, zone, area)
                \<and> \<not> isAvailable (slotStore s slot)))
       \<and> (\<forall>rid1 req1 rid2 req2.
             requests s rid1 = Some req1 \<and> (state req1 = ALLOCATED \<or> state req1 = OCCUPIED)
             \<and> requests s rid2 = Some req2 \<and> (state req2 = ALLOCATED \<or> state req2 = OCCUPIED)
             \<and> rid1 \<noteq> rid2
             \<longrightarrow> allocatedSlotId req1 \<noteq> allocatedSlotId req2)"
proof -
  have inv: "invC (zones s) (slotStore s) (requests s) (operationHistory s)"
    using reachable_sysInv[OF assms(2) sysInv_loadTopology[OF assms(1)]]
    by (simp add: sysInv_def)
  have first: "\<exists>sid zid slot zone area.
                allocatedSlotId req = Some sid \<and> allocatedZoneId req = Some zid
                \<and> findSlot s sid = Some (slot, zone, area)
                \<and> \<not> isAvailable (slotStore s slot)"
    if "requests s rid = Some req" "state req = ALLOCATED \<or> state req = OCCUPIED" for rid req
  proof -
    from that(2) have "active req" by (simp add: active_def)
    from invC_active[OF inv that(1) this] obtain operation :: AllocationOperation and slot zid where
      o: "allocatedZoneId req = Some zid" "allocatedSlotId req = Some (slotId operation)"
         "slotAt (zones s) (slotStore s) (slotId operation) = Some slot"
         "\<not> isAvailable (slotStore s slot)"
      by auto
    from o(3) obtain zone area where "findSlot s (slotId operation) = Some (slot, zone, area)"
      by (auto simp: slotAt_def findSlot_def)
    with o show ?thesis by blast
  qed
  have second: "allocatedSlotId req1 \<noteq> allocatedSlotId req2"
    if "requests s rid1 = Some req1" "state req1 = ALLOCATED \<or> state req1 = OCCUPIED"
       "requests s rid2 = Some req2" "state req2 = ALLOCATED \<or> state req2 = OCCUPIED"
       "rid1 \<noteq> rid2" for rid1 req1 rid2 req2
    using invC_exclusive[OF inv that(1) _ that(3)] that(2,4,5) by (auto simp: active_def)
  from first second show ?thesis by blast
qed

section \<open>Rollback after a run of allocations\<close>

lemma clear_create:
  "requestedClear (requests s) \<Longrightarrow>
   requestedClear (requests (snd (createRequest s vehId zoneId newId now)))"
  by (auto simp: requestedClear_def createRequest_def Let_def)

lemma allocate_cases:
  "snd (allocateSlot s reqId newOpId opTime allocTime) = s
   \<or> (\<exists>req slot rest isCross. requests s reqId = Some req \<and> state req = REQUESTED
         \<and> selectSlots s req = (slot # rest, isCross))"
proof (cases "requests s reqId")
  case None
  then show ?thesis by (simp add: allocateSlot_def)
next
  case (Some req)
  show ?thesis
  proof (cases "state req = REQUESTED")
    case False
    then have "\<not> canTransition (state req) ALLOCATED" by (simp add: canTransition_table)
    with Some show ?thesis by (simp add: allocateSlot_def)
  next
    case True
    obtain av c where sel: "selectSlots s req = (av, c)" by (cases "selectSlots s req")
    show ?thesis
    proof (cases av)
      case Nil
      with sel Some True show ?thesis by (simp add: allocate_none_selected)
    next
      case (Cons slot rest)
      with sel Some True show ?thesis by auto
    qed
  qed
qed

lemma clear_allocate:
  assumes "requestedClear (requests s)"
  shows "requestedClear (requests (snd (allocateSlot s reqId newOpId opTime allocTime)))"
  using allocate_cases[of s reqId newOpId opTime allocTime]
proof (elim disjE exE conjE)
  assume "snd (allocateSlot s reqId newOpId opTime allocTime) = s"
  with assms show ?thesis by simp
next
  fix req slot rest isCross
  assume "requests s reqId = Some req" "state req = REQUESTED"
    "selectSlots s req = (slot # rest, isCross)"
  from allocate_success[OF this, of newOpId opTime allocTime] assms show ?thesis
    by (auto simp: requestedClear_def Let_def)
qed

lemma clear_occupy:
  "requestedClear (requests s) \<Longrightarrow> requestedClear (requests (snd (occupySlot s reqId now)))"
  by (auto simp: requestedClear_def occupySlot_def Let_def split: option.splits)

lemma freeAllocatedSlot_requests [simp]:
  "requests (freeAllocatedSlot s req) = requests s"
  by (simp add: freeAllocatedSlot_def setAvailable_def split: option.splits)

lemma clear_release:
  "requestedClear (requests s) \<Longrightarrow> requestedClear (requests (snd (releaseSlot s reqId now)))"
  by (auto simp: requestedClear_def releaseSlot_def Let_def split: option.splits)

lemma clear_cancel:
  "requestedClear (requests s) \<Longrightarrow> requestedClear (requests (snd (cancelRequest s reqId)))"
  by (auto simp: requestedClear_def cancelRequest_def Let_def split: option.splits)

lemma clear_undo:
  "requestedClear (requests s) \<Longrightarrow> requestedClear (requests (undoOperation s operation))"
  by (auto simp: requestedClear_def undoOperation_def restoreRequest_def restoreSlot_def
        setAvailable_def Let_def split: option.splits)

lemma clear_foldl_undo:
  "requestedClear (requests s) \<Longrightarrow> requestedClear (requests (foldl undoOperation s ops))"
  by (induction ops arbitrary: s) (simp_all add: clear_undo)

lemma clear_rollback:
  "requestedClear (requests s) \<Longrightarrow> requestedClear (requests (snd (rollback s k)))"
  by (simp add: rollback_def rollback_loop_char clear_foldl_undo)

lemma reachable_clear:
  "reachable s0 s \<Longrightarrow> requestedClear (requests s0) \<Longrightarrow> requestedClear (requests s)"
  by (induction rule: reachable.induct)
     (simp_all add: clear_create clear_allocate clear_occupy clear_release clear_cancel
        clear_rollback)


lemma allocate_success_cases:
  assumes "success (fst (allocateSlot s reqId newOpId opTime allocTime))"
  shows "\<exists>req slot rest isCross. requests s reqId = Some req \<and> state req = REQUESTED
           \<and> selectSlots s req = (slot # rest, isCross)"
proof (cases "requests s reqId")
  case None
  with assms show ?thesis by (simp add: allocateSlot_def failure_def)
next
  case (Some req)
  show ?thesis
  proof (cases "state req = REQUESTED")
    case False
    then have "\<not> canTransition (state req) ALLOCATED" by (simp add: canTransition_table)
    with Some assms show ?thesis by (simp add: allocateSlot_def failure_def)
  next
    case True
    obtain av c where sel: "selectSlots s req = (av, c)" by (cases "selectSlots s req")
    show ?thesis
    proof (cases av)
      case Nil
      with sel Some True assms show ?thesis by (simp add: allocate_none_selected failure_def)
    next
      case (Cons slot rest)
      with sel Some True show ?thesis by auto
    qed
  qed
qed

lemma available_update_same: "isAvailable x \<Longrightarrow> x\<lparr>isAvailable := True\<rparr> = x"
  by (cases x) simp

lemma undo_allocate:
  assumes inv: "sysInv s" and clr: "requestedClear (requests s)"
    and ok: "success (fst (allocateSlot s reqId newOpId opTime allocTime))"
  shows "\<exists>operation.
           operationHistory (snd (allocateSlot s reqId newOpId opTime allocTime))
             = operationHistory s @ [operation]
           \<and> undoOperation ((snd (allocateSlot s reqId newOpId opTime allocTime))
                               \<lparr>operationHistory := operationHistory s\<rparr>) operation = s"
proof -
  from allocate_success_cases[OF ok] obtain req slot rest isCross where
    cur: "requests s reqId = Some req" and rs: "state req = REQUESTED"
    and sel: "selectSlots s req = (slot # rest, isCross)" by blast
  note i = inv[unfolded sysInv_def]
  from selectSlots_mem[OF sel] have mem: "slot \<in> set (refsOf (zones s))"
    and av: "isAvailable (slotStore s slot)" by simp_all
  have at: "slotAt (zones s) (slotStore s) (s_id (slotStore s slot)) = Some slot"
    by (rule slotAt_unique[OF invC_unique[OF i] mem])
  have key: "r_id req = reqId" by (rule invC_key[OF i cur])
  from clr cur rs have clear: "allocatedSlotId req = None" "allocatedZoneId req = None"
    "allocationTime req = None" "\<not> isCrossZone req" "crossZonePenalty req = 0"
    by (auto simp: requestedClear_def)
  have restored: "req\<lparr>state := REQUESTED, allocatedSlotId := None, allocatedZoneId := None,
                  allocationTime := None, isCrossZone := False, crossZonePenalty := 0\<rparr> = req"
    using clear rs by (cases req) simp
  let ?st = "(slotStore s)(slot := (slotStore s slot)\<lparr>isAvailable := False\<rparr>)"
  have "slotAt (zones s) ?st (s_id (slotStore s slot)) = Some slot" using at by simp
  then obtain zone area where
    f: "findSlot_zones ?st (s_id (slotStore s slot)) (zones s) = Some (slot, zone, area)"
    by (auto simp: slotAt_def)
  have store: "?st(slot := (?st slot)\<lparr>isAvailable := True\<rparr>) = slotStore s"
    using av by (simp add: available_update_same)
  have reqs: "(requests s)(reqId \<mapsto> req) = requests s" using cur by (rule map_upd_triv)
  show ?thesis
    unfolding allocate_success[OF cur rs sel]
    using f av key reqs store
    by (simp add: Let_def undoOperation_def restoreSlot_def restoreRequest_def setAvailable_def
          findSlot_def restored)
qed

lemma allocateAll_snoc:
  "allocateAll s (calls @ [c]) =
     (case allocateAll s calls of None \<Rightarrow> None | Some s1 \<Rightarrow> allocateAll s1 [c])"
  by (induction s calls rule: allocateAll.induct) simp_all

lemma allocateAll_inv:
  "allocateAll s calls = Some s' \<Longrightarrow> sysInv s \<Longrightarrow> requestedClear (requests s) \<Longrightarrow>
   sysInv s' \<and> requestedClear (requests s')"
  by (induction s calls rule: allocateAll.induct)
     (auto simp: sysInv_allocate clear_allocate split: if_splits)

lemma rollback_loop_shift:
  "rollback_loop i k s n
     = (fst (rollback_loop 0 (k - i) s 0), n + snd (rollback_loop 0 (k - i) s 0))"
  by (simp add: rollback_loop_char)

lemma rollback_loop_step:
  assumes "operationHistory s = hist @ [operation]"
  shows "rollback_loop 0 (int (Suc m)) s 0
           = rollback_loop 1 (int (Suc m)) (undoOperation (s\<lparr>operationHistory := hist\<rparr>) operation) 1"
  using assms by (subst rollback_loop.simps) (simp add: pop_def)

lemma allocateAll_rollback:
  assumes "sysInv s" and "requestedClear (requests s)"
  shows "allocateAll s calls = Some s' \<Longrightarrow> rollback_loop 0 (int (length calls)) s' 0 = (s, length calls)"
proof (induction calls arbitrary: s' rule: rev_induct)
  case Nil
  then show ?case by (subst rollback_loop.simps) simp
next
  case (snoc c calls)
  obtain reqId newOpId opTime allocTime where c: "c = (reqId, newOpId, opTime, allocTime)"
    by (cases c) auto
  from snoc.prems obtain s1 where s1: "allocateAll s calls = Some s1"
    and last: "allocateAll s1 [c] = Some s'"
    by (auto simp: allocateAll_snoc split: option.splits)
  from last c have ok: "success (fst (allocateSlot s1 reqId newOpId opTime allocTime))"
    and s': "s' = snd (allocateSlot s1 reqId newOpId opTime allocTime)"
    by (auto split: if_splits)
  from allocateAll_inv[OF s1 assms] have i1: "sysInv s1" "requestedClear (requests s1)"
    by simp_all
  from undo_allocate[OF i1 ok] s' obtain operation where
    h: "operationHistory s' = operationHistory s1 @ [operation]"
    and u: "undoOperation (s'\<lparr>operationHistory := operationHistory s1\<rparr>) operation = s1"
    by auto
  have "rollback_loop 0 (int (length (calls @ [c]))) s' 0
          = rollback_loop 1 (int (Suc (length calls))) s1 1"
    using rollback_loop_step[OF h, of "length calls"] u by simp
  also have "\<dots> = (s, Suc (length calls))"
    using snoc.IH[OF s1] by (subst rollback_loop_shift) simp
  finally show ?case by simp
qed

text \<open>
  Claim C8, as the code has it. Take a state reached from a loaded topology with unique
  slot ids and a run of \<open>k\<close> allocations that all succeed from it, one after the other
  with no other operation in between. Then \<open>rollback(k)\<close> on the resulting state reports
  \<open>k\<close> and gives back the state before the run exactly (slots, requests and log), so
  running the same \<open>k\<close> allocations again, with the same generated ids and clock readings,
  gives the state before the rollback.
\<close>

theorem rollback_then_reallocate:
  assumes "uniqueSlotIds (loadTopology store zoneList)"
    and "reachable (loadTopology store zoneList) s"
    and "allocateAll s calls = Some s'"
  shows "rollback s' (int (length calls))
           = (\<lparr>rb_success = True, rb_message = RolledBack (length calls),
               rolledBack = length calls\<rparr>, s)
       \<and> allocateAll (snd (rollback s' (int (length calls)))) calls = Some s'"
proof -
  have i: "sysInv s"
    by (rule reachable_sysInv[OF assms(2) sysInv_loadTopology[OF assms(1)]])
  have "requestedClear (requests (loadTopology store zoneList))"
    by (simp add: requestedClear_def loadTopology_fields)
  with assms(2) have c: "requestedClear (requests s)" by (rule reachable_clear)
  from allocateAll_rollback[OF i c assms(3)] assms(3) show ?thesis
    by (simp add: rollback_def)
qed

section \<open>The cross-zone penalty\<close>

lemma loadState_penalty: "sys_crossZonePenalty (loadState s st) = sys_crossZonePenalty s"
proof -
  have a: "\<And>xs s. sys_crossZonePenalty (foldl (\<lambda>acc zone. acc\<lparr>zones := AList.update (z_id zone) zone (zones acc)\<rparr>) s xs) = sys_crossZonePenalty s"
    subgoal for xs s by (induction xs arbitrary: s) simp_all done
  have b: "\<And>xs s. sys_crossZonePenalty (foldl (\<lambda>acc vehicle. acc\<lparr>vehicles := AList.update (v_id vehicle) vehicle (vehicles acc)\<rparr>) s xs) = sys_crossZonePenalty s"
    subgoal for xs s by (induction xs arbitrary: s) simp_all done
  have c: "\<And>xs s. sys_crossZonePenalty (foldl (\<lambda>acc request. acc\<lparr>requests := (requests acc)(r_id request \<mapsto> request)\<rparr>) s xs) = sys_crossZonePenalty s"
    subgoal for xs s by (induction xs arbitrary: s) simp_all done
  have d: "\<And>xs s. sys_crossZonePenalty (foldl (\<lambda>acc operation. acc\<lparr>operationHistory := push operation (operationHistory acc)\<rparr>) s xs) = sys_crossZonePenalty s"
    subgoal for xs s by (induction xs arbitrary: s) simp_all done
  show ?thesis by (simp add: loadState_def Let_def a b c d)
qed

lemma new_penalty: "sys_crossZonePenalty (new_ParkingSystem store initialState) = 10"
  by (simp add: new_ParkingSystem_def loadState_penalty Let_def split: option.splits)

lemma penalty_allocate:
  "sys_crossZonePenalty (snd (allocateSlot s reqId newOpId opTime allocTime)) = sys_crossZonePenalty s"
  using allocate_cases[of s reqId newOpId opTime allocTime]
proof (elim disjE exE conjE)
  assume "snd (allocateSlot s reqId newOpId opTime allocTime) = s"
  then show ?thesis by simp
next
  fix req slot rest isCross
  assume "requests s reqId = Some req" "state req = REQUESTED"
    "selectSlots s req = (slot # rest, isCross)"
  from allocate_success[OF this, of newOpId opTime allocTime] show ?thesis
    by (simp add: Let_def)
qed

lemma penalty_free [simp]:
  "sys_crossZonePenalty (freeAllocatedSlot s req) = sys_crossZonePenalty s"
  by (simp add: freeAllocatedSlot_def setAvailable_def split: option.splits)

lemma penalty_undo [simp]:
  "sys_crossZonePenalty (undoOperation s operation) = sys_crossZonePenalty s"
  by (simp add: undoOperation_def restoreSlot_def restoreRequest_def setAvailable_def Let_def
      split: option.splits)

lemma penalty_foldl_undo [simp]:
  "sys_crossZonePenalty (foldl undoOperation s ops) = sys_crossZonePenalty s"
  by (induction ops arbitrary: s) simp_all

lemma reachable_penalty:
  "reachable s0 s \<Longrightarrow> sys_crossZonePenalty s = sys_crossZonePenalty s0"
proof (induction rule: reachable.induct)
  case start
  show ?case by simp
next
  case (create s newId vehId zoneId now)
  then show ?case by (simp add: createRequest_def Let_def)
next
  case (allocate s reqId newOpId opTime allocTime)
  then show ?case by (simp add: penalty_allocate)
next
  case (occupy s reqId now)
  then show ?case by (simp add: occupySlot_def Let_def split: option.splits)
next
  case (release s reqId now)
  then show ?case by (simp add: releaseSlot_def Let_def split: option.splits)
next
  case (cancel s reqId)
  then show ?case by (simp add: cancelRequest_def Let_def split: option.splits)
next
  case (undo s k)
  then show ?case by (simp add: rollback_def rollback_loop_char)
qed

lemma loadTopology_penalty: "sys_crossZonePenalty (loadTopology store zoneList) = 10"
proof -
  have "sys_crossZonePenalty (foldl addZone s zoneList) = sys_crossZonePenalty s" for s
    by (induction zoneList arbitrary: s) (simp_all add: addZone_def)
  then show ?thesis by (simp add: loadTopology_def new_penalty)
qed

text \<open>
  Claim C2, as the code has it. For a \<open>REQUESTED\<close> request whose requested zone exists and
  has no available slot, \<open>allocateSlot\<close> walks the zone's adjacency list in stored order and
  takes the first available slot of the first listed zone that has one; the request is
  marked cross-zone and its penalty is the system's penalty field. The constructor sets that
  field to 10 whatever it is given, and no operation changes it, so the penalty is 10 in
  every state reached from a loaded topology.
\<close>

theorem allocate_adjacent_zone:
  assumes "requests s reqId = Some req" and "state req = REQUESTED"
    and "map_of (zones s) (requestedZoneId req) = Some zone"
    and "getAvailableSlotsInZone s (requestedZoneId req) = []"
    and "adjacentZones zone = pre @ adj # post"
    and "\<forall>z \<in> set pre. getAvailableSlotsInZone s z = []"
    and "getAvailableSlotsInZone s adj = slot # rest"
  shows "allocateSlot s reqId newOpId opTime allocTime =
           (let req' = req\<lparr>allocatedSlotId := Some (s_id (slotStore s slot)),
                           allocatedZoneId := Some (s_zoneId (slotStore s slot)),
                           state := ALLOCATED,
                           allocationTime := Some allocTime,
                           isCrossZone := True,
                           crossZonePenalty := sys_crossZonePenalty s\<rparr>
            in (\<lparr>success = True,
                 message = AllocatedAdjacent (s_id (slotStore s slot)) (sys_crossZonePenalty s),
                 request = Some req'\<rparr>,
                s\<lparr>operationHistory := operationHistory s @
                      [\<lparr>op_id = newOpId, requestId = r_id req, slotId = s_id (slotStore s slot),
                        previousSlotState = True,
                        previousRequestState = REQUESTED, timestamp = opTime\<rparr>],
                  slotStore := (slotStore s)(slot := (slotStore s slot)\<lparr>isAvailable := False\<rparr>),
                  requests := (requests s)(reqId \<mapsto> req')\<rparr>))
       \<and> sys_crossZonePenalty (new_ParkingSystem store initialState) = 10
       \<and> (reachable (loadTopology store zoneList) s \<longrightarrow> sys_crossZonePenalty s = 10)"
proof -
  have sel: "selectSlots s req = (slot # rest, True)"
    using assms(3-7) by (simp add: selectSlots_def tryAdjacent_first)
  from getAvailable_Cons_zone[OF assms(7)] have "isAvailable (slotStore s slot)" by blast
  then show ?thesis
    using allocate_success[OF assms(1,2) sel, of newOpId opTime allocTime]
    by (simp add: Let_def new_penalty reachable_penalty loadTopology_penalty)
qed

section \<open>Rollback of a request that has moved on\<close>

lemma findSlot_areas_ids:
  assumes "\<And>r. s_id (st' r) = s_id (st r)"
  shows "findSlot_areas st' sid zone as = findSlot_areas st sid zone as"
  by (induction as) (auto simp: assms split: option.splits)

lemma findSlot_zones_ids:
  assumes "\<And>r. s_id (st' r) = s_id (st r)"
  shows "findSlot_zones st' sid zs = findSlot_zones st sid zs"
  by (induction zs) (auto simp: findSlot_areas_ids[of st' st, OF assms] split: option.splits)

lemma findSlot_zones_upd [simp]:
  "findSlot_zones (st(a := (st a)\<lparr>isAvailable := v\<rparr>)) sid zs = findSlot_zones st sid zs"
  by (rule findSlot_zones_ids) simp

lemma slotAt_member: "a \<in> set (refsOf zs) \<Longrightarrow> slotAt zs st (s_id (st a)) \<noteq> None"
  unfolding slotAt_find by (auto simp: find_None_iff)

lemma logOk_create:
  "logOk s \<Longrightarrow> logOk (snd (createRequest s vehId zoneId newId now))"
  by (auto simp: logOk_def logRecordsOk_def createRequest_def Let_def)

lemma logOk_allocate:
  assumes "logOk s"
  shows "logOk (snd (allocateSlot s reqId newOpId opTime allocTime))"
  using allocate_cases[of s reqId newOpId opTime allocTime]
proof (elim disjE exE conjE)
  assume "snd (allocateSlot s reqId newOpId opTime allocTime) = s"
  with assms show ?thesis by simp
next
  fix req slot rest isCross
  assume a: "requests s reqId = Some req" "state req = REQUESTED"
    "selectSlots s req = (slot # rest, isCross)"
  from selectSlots_mem[OF a(3)] have mem: "slot \<in> set (refsOf (zones s))"
    and av: "isAvailable (slotStore s slot)" by simp_all
  from assms a(1) have key: "r_id req = reqId" by (auto simp: logOk_def logRecordsOk_def)
  from allocate_success[OF a, of newOpId opTime allocTime] assms key av slotAt_member[OF mem, of "slotStore s"]
  show ?thesis
    by (auto simp: logOk_def logRecordsOk_def Let_def)
qed

lemma logOk_occupy:
  "logOk s \<Longrightarrow> logOk (snd (occupySlot s reqId now))"
  by (auto simp: logOk_def logRecordsOk_def occupySlot_def Let_def split: option.splits)

lemma logOk_free:
  assumes "logOk s" and "requests s reqId = Some req" and "r_id req' = r_id req"
  shows "logOk ((freeAllocatedSlot s req)\<lparr>requests := (requests (freeAllocatedSlot s req))(reqId \<mapsto> req')\<rparr>)"
  using assms
  by (auto simp: logOk_def logRecordsOk_def freeAllocatedSlot_def setAvailable_def
      split: option.splits)

lemma logOk_release:
  "logOk s \<Longrightarrow> logOk (snd (releaseSlot s reqId now))"
  using logOk_free[of s reqId _ "_\<lparr>state := RELEASED, releaseTime := Some now\<rparr>"]
  by (auto simp: releaseSlot_def Let_def split: option.splits)

lemma logOk_cancel:
  "logOk s \<Longrightarrow> logOk (snd (cancelRequest s reqId))"
  using logOk_free[of s reqId _ "_\<lparr>state := CANCELLED\<rparr>"]
  by (auto simp: cancelRequest_def Let_def split: option.splits)

lemma logOk_undo_step:
  assumes "logOk s" and "operationHistory s = hist @ [operation]"
  shows "logOk (undoOperation (s\<lparr>operationHistory := hist\<rparr>) operation)"
  using assms
  by (auto simp: logOk_def logRecordsOk_def undoOperation_def restoreRequest_def restoreSlot_def
        setAvailable_def Let_def split: option.splits)

lemma logOk_rollback_loop:
  "logOk s \<Longrightarrow> logOk (fst (rollback_loop i k s n))"
proof (induction i k s n rule: rollback_loop.induct)
  case (1 i k s n)
  show ?case
  proof (cases "i < k \<and> length (operationHistory s) > 0")
    case False
    with "1.prems" show ?thesis by (subst rollback_loop.simps) auto
  next
    case True
    then have ne: "operationHistory s \<noteq> []" by auto
    then have popped: "pop (operationHistory s) = Some (last (operationHistory s), butlast (operationHistory s))"
      by (simp add: pop_def)
    have h: "operationHistory s = butlast (operationHistory s) @ [last (operationHistory s)]"
      using ne by simp
    have "logOk (undoOperation (s\<lparr>operationHistory := butlast (operationHistory s)\<rparr>)
                     (last (operationHistory s)))"
      by (rule logOk_undo_step[OF "1.prems" h])
    from "1.IH"[OF True popped refl this] True popped
    show ?thesis by (subst rollback_loop.simps) simp
  qed
qed

lemma logOk_rollback: "logOk s \<Longrightarrow> logOk (snd (rollback s k))"
  using logOk_rollback_loop[of s 0 k 0]
  by (cases "rollback_loop 0 k s 0") (simp add: rollback_def)

lemma reachable_logOk: "reachable s0 s \<Longrightarrow> logOk s0 \<Longrightarrow> logOk s"
  by (induction rule: reachable.induct)
     (simp_all add: logOk_create logOk_allocate logOk_occupy logOk_release logOk_cancel
        logOk_rollback)

lemma logOk_loadTopology: "logOk (loadTopology store zoneList)"
  by (simp add: logOk_def logRecordsOk_def loadTopology_fields)

text \<open>
  Claim C10. In every state reached from a loaded topology, popping the last record of the
  log does not look at the request's current state: the recorded request is registered and
  a slot with the recorded id exists, and whatever state the request is in (\<open>OCCUPIED\<close>,
  \<open>RELEASED\<close>, \<open>CANCELLED\<close> or still \<open>ALLOCATED\<close>), after \<open>rollback(1)\<close> that slot is
  available, the request is back in \<open>REQUESTED\<close> with its allocation fields cleared, and
  \<open>occupiedTime\<close> and \<open>releaseTime\<close> keep their values.
\<close>

theorem rollback_ignores_current_state:
  assumes "reachable (loadTopology store zoneList) s"
    and "operationHistory s = hist @ [operation]"
  shows "\<exists>req slot zone area.
           requests s (requestId operation) = Some req
         \<and> findSlot s (slotId operation) = Some (slot, zone, area)
         \<and> rollback s 1 =
             (\<lparr>rb_success = True, rb_message = RolledBack 1, rolledBack = 1\<rparr>,
              s\<lparr>operationHistory := hist,
                slotStore := (slotStore s)(slot := (slotStore s slot)\<lparr>isAvailable := True\<rparr>),
                requests := (requests s)(requestId operation \<mapsto>
                   req\<lparr>state := REQUESTED, allocatedSlotId := None, allocatedZoneId := None,
                       allocationTime := None, isCrossZone := False, crossZonePenalty := 0\<rparr>)\<rparr>)
         \<and> findSlot (snd (rollback s 1)) (slotId operation) = Some (slot, zone, area)
         \<and> isAvailable (slotStore (snd (rollback s 1)) slot)
         \<and> (\<exists>req'. requests (snd (rollback s 1)) (requestId operation) = Some req'
                \<and> state req' = REQUESTED
                \<and> allocatedSlotId req' = None \<and> allocatedZoneId req' = None
                \<and> allocationTime req' = None \<and> \<not> isCrossZone req' \<and> crossZonePenalty req' = 0
                \<and> occupiedTime req' = occupiedTime req \<and> releaseTime req' = releaseTime req)"
proof -
  have "logOk s" by (rule reachable_logOk[OF assms(1) logOk_loadTopology])
  with assms(2) have o: "previousRequestState operation = REQUESTED" "previousSlotState operation"
    "requests s (requestId operation) \<noteq> None"
    "slotAt (zones s) (slotStore s) (slotId operation) \<noteq> None"
    by (auto simp: logOk_def logRecordsOk_def)
  from o(3) obtain req where req: "requests s (requestId operation) = Some req" by auto
  from o(4) obtain slot zone area where f: "findSlot s (slotId operation) = Some (slot, zone, area)"
    by (auto simp: slotAt_def findSlot_def)
  have rb: "rollback s 1 =
             (\<lparr>rb_success = True, rb_message = RolledBack 1, rolledBack = 1\<rparr>,
              s\<lparr>operationHistory := hist,
                slotStore := (slotStore s)(slot := (slotStore s slot)\<lparr>isAvailable := True\<rparr>),
                requests := (requests s)(requestId operation \<mapsto>
                   req\<lparr>state := REQUESTED, allocatedSlotId := None, allocatedZoneId := None,
                       allocationTime := None, isCrossZone := False, crossZonePenalty := 0\<rparr>)\<rparr>)"
    using o(1,2) req f
    by (simp add: rollback_one[OF assms(2)] undoOperation_def restoreRequest_def restoreSlot_def
          setAvailable_def Let_def)
  have after: "findSlot (snd (rollback s 1)) (slotId operation) = Some (slot, zone, area)"
    using f by (simp add: rb findSlot_def)
  show ?thesis
    using req f rb after by (intro exI[of _ req] exI[of _ slot] exI[of _ zone] exI[of _ area]) simp
qed

section \<open>Zone utilization\<close>

subsection \<open>Rounding to a double\<close>

lemma roundHalfEven_error: "\<bar>of_int (roundHalfEven y) - y\<bar> \<le> 1 / 2"
proof -
  have "of_int \<lfloor>y\<rfloor> \<le> y" "y < of_int \<lfloor>y\<rfloor> + 1" by linarith+
  then show ?thesis by (auto simp: roundHalfEven_def Let_def)
qed


lemma bitlen_powi:
  assumes "0 < n"
  shows "(2::rat) powi (bitlen n - 1) \<le> of_int n" and "(of_int n :: rat) < 2 powi (bitlen n)"
proof -
  from bitlen_bounds[OF assms] have b: "2 ^ nat (bitlen n - 1) \<le> n" "n < 2 ^ nat (bitlen n)"
    by simp_all
  from b(2) assms have pos: "0 < bitlen n" by (metis bitlen_eq_zero_iff bitlen_nonneg less_le not_less)
  have "(of_int (2 ^ nat (bitlen n - 1)) :: rat) \<le> of_int n" using b(1) by (simp only: of_int_le_iff)
  then show "(2::rat) powi (bitlen n - 1) \<le> of_int n" using pos by (simp add: power_int_def)
  have "(of_int n :: rat) < of_int (2 ^ nat (bitlen n))" using b(2) by (simp only: of_int_less_iff)
  then show "(of_int n :: rat) < 2 powi (bitlen n)" using pos by (simp add: power_int_def)
qed

lemma binade_bounds:
  assumes "0 < x"
  shows "2 powi (binade x) \<le> x \<and> x < 2 powi (binade x + 1)"
proof -
  obtain n d where q: "quotient_of x = (n, d)" by (cases "quotient_of x")
  then have d: "0 < d" and x: "x = of_int n / of_int d"
    by (simp_all add: quotient_of_denom_pos quotient_of_div)
  from assms x d have n: "0 < n" by (simp add: zero_less_divide_iff)
  let ?l = "bitlen n - bitlen d"
  have dpos: "(0::rat) < of_int d" using d by simp
  have up: "x < 2 powi (?l + 1)"
  proof -
    have "x * 2 powi (bitlen d - 1) \<le> x * of_int d"
      using bitlen_powi(1)[OF d] assms by (simp add: mult_left_mono)
    also have "\<dots> = of_int n" using x dpos by simp
    also have "\<dots> < 2 powi (bitlen n)" by (rule bitlen_powi(2)[OF n])
    finally have "x * 2 powi (bitlen d - 1) < 2 powi (bitlen n)" .
    then have "x < 2 powi (bitlen n) / 2 powi (bitlen d - 1)"
      by (simp add: pos_less_divide_eq)
    also have "\<dots> = 2 powi (?l + 1)"
      by (simp add: power_int_diff[symmetric] algebra_simps)
    finally show ?thesis .
  qed
  have low: "2 powi (?l - 1) < x"
  proof -
    have "2 powi (bitlen n - 1) \<le> (of_int n :: rat)" by (rule bitlen_powi(1)[OF n])
    also have "\<dots> = x * of_int d" using x dpos by simp
    also have "\<dots> < x * 2 powi (bitlen d)"
      using bitlen_powi(2)[OF d] assms by (simp add: mult_strict_left_mono)
    finally have "2 powi (bitlen n - 1) / 2 powi (bitlen d) < x"
      by (simp add: pos_divide_less_eq)
    moreover have "(2::rat) powi (bitlen n - 1) / 2 powi (bitlen d) = 2 powi (?l - 1)"
      by (simp add: power_int_diff[symmetric] algebra_simps)
    ultimately show ?thesis by simp
  qed
  show ?thesis
  proof (cases "2 powi ?l \<le> x")
    case True
    with up q show ?thesis by (simp add: binade_def)
  next
    case False
    with low q show ?thesis by (simp add: binade_def)
  qed
qed


lemma toDouble_pos:
  assumes "0 < x"
  shows "toDouble x = of_int (roundHalfEven (x / 2 powi (binade x - 52))) * 2 powi (binade x - 52)"
  using assms by (simp add: toDouble_def Let_def)

lemma toDouble_error_pos:
  assumes "0 < x"
  shows "\<bar>toDouble x - x\<bar> \<le> x / 2 ^ 53"
proof -
  let ?p = "(2::rat) powi (binade x - 52)"
  let ?m = "of_int (roundHalfEven (x / ?p)) :: rat"
  have p: "0 < ?p" by simp
  have "toDouble x - x = (?m - x / ?p) * ?p"
    using p by (simp add: toDouble_pos[OF assms] algebra_simps)
  then have "\<bar>toDouble x - x\<bar> = \<bar>?m - x / ?p\<bar> * ?p"
    using p by (simp add: abs_mult)
  also have "\<dots> \<le> (1 / 2) * ?p"
    using roundHalfEven_error[of "x / ?p"] p by (intro mult_right_mono) simp_all
  also have "\<dots> = 2 powi (binade x) / 2 ^ 53"
  proof -
    have "(2::rat) powi (binade x - 52) = 2 powi (binade x) / 2 powi 52"
      by (simp add: power_int_diff)
    then show ?thesis by simp
  qed
  also have "\<dots> \<le> x / 2 ^ 53"
    using binade_bounds[OF assms] by (simp add: divide_right_mono)
  finally show ?thesis .
qed

lemma toDouble_nonneg: "0 \<le> x \<Longrightarrow> 0 \<le> toDouble x"
proof (cases "x = 0")
  case True
  then show ?thesis by (simp add: toDouble_def)
next
  case False
  assume "0 \<le> x"
  with False have pos: "0 < x" by simp
  from toDouble_error_pos[OF pos] have "x - x / 2 ^ 53 \<le> toDouble x" by linarith
  moreover have "x / 2 ^ 53 \<le> x" using pos by (simp add: field_simps)
  ultimately show ?thesis by linarith
qed



lemma toDouble_zero [simp]: "toDouble 0 = 0"
  by (simp add: toDouble_def)



subsection \<open>The utilization loop\<close>







section \<open>Evaluation at the concrete scenarios\<close>

text \<open>
  The theorems above, applied to the scenarios: each application discharges the
  assumptions by evaluating the operations on the concrete system.
\<close>

lemmas scenario_defs = withRequest_def createRequest_def sysA_def sysB_def sysC_def addZone_def
  new_ParkingSystem_def mkZone_def storeA_def storeB_def storeC_def mkSlot_def
  getAvailableSlotsInZone_def Let_def

theorem allocate_no_slots_anywhere_witness:
  "allocateSlot (withRequest sysC ''za'' ''REQ-1'') ''REQ-1'' ''OP-1'' 101 102
     = (failure NoAvailableSlots, withRequest sysC ''za'' ''REQ-1'')"
  using allocate_no_slots_anywhere
          [of "withRequest sysC ''za'' ''REQ-1''" "''REQ-1''"
              "fst (createRequest sysC ''v1'' ''za'' ''REQ-1'' 100)" "''OP-1''" 101 102]
  by (simp add: withRequest_def createRequest_def sysC_def addZone_def new_ParkingSystem_def
        mkZone_def storeC_def mkSlot_def getAvailableSlotsInZone_def Let_def)

theorem allocate_same_zone_witness:
  "fst (allocateSlot (withRequest sysA ''za'' ''REQ-1'') ''REQ-1'' ''OP-1'' 101 102) =
     \<lparr>success = True, message = AllocatedTo ''a1'',
      request = Some \<lparr>r_id = ''REQ-1'', vehicleId = ''v1'', requestedZoneId = ''za'',
                      allocatedSlotId = Some ''a1'', allocatedZoneId = Some ''za'',
                      state = ALLOCATED, requestTime = 100, allocationTime = Some 102,
                      occupiedTime = None, releaseTime = None, isCrossZone = False,
                      crossZonePenalty = 0\<rparr>\<rparr>
   \<and> \<not> isAvailable (slotStore (snd (allocateSlot (withRequest sysA ''za'' ''REQ-1'') ''REQ-1'' ''OP-1'' 101 102)) 0)
   \<and> slotBackrefsOk (withRequest sysA ''za'' ''REQ-1'')
   \<and> s_zoneId (slotStore (withRequest sysA ''za'' ''REQ-1'') 0) = ''za''"
  using allocate_same_zone
          [of "withRequest sysA ''za'' ''REQ-1''" "''REQ-1''"
              "fst (createRequest sysA ''v1'' ''za'' ''REQ-1'' 100)" 0 "[1]" "''OP-1''" 101 102]
  by (simp add: scenario_defs slotBackrefsOk_def zoneSlotRefs_def)

lemma sysB_loaded:
  "sysB = loadTopology storeB [mkZone ''za'' [''zb''] [(''area-a1'', [0, 1])],
                               mkZone ''zb'' [''za''] [(''area-b1'', [2])]]"
  by (simp add: sysB_def loadTopology_def)

theorem allocate_adjacent_zone_witness:
  "fst (allocateSlot (withRequest sysB ''za'' ''REQ-1'') ''REQ-1'' ''OP-1'' 101 102) =
     \<lparr>success = True, message = AllocatedAdjacent ''b1'' 10,
      request = Some \<lparr>r_id = ''REQ-1'', vehicleId = ''v1'', requestedZoneId = ''za'',
                      allocatedSlotId = Some ''b1'', allocatedZoneId = Some ''zb'',
                      state = ALLOCATED, requestTime = 100, allocationTime = Some 102,
                      occupiedTime = None, releaseTime = None, isCrossZone = True,
                      crossZonePenalty = 10\<rparr>\<rparr>
   \<and> \<not> isAvailable (slotStore (snd (allocateSlot (withRequest sysB ''za'' ''REQ-1'') ''REQ-1'' ''OP-1'' 101 102)) 2)
   \<and> sys_crossZonePenalty (withRequest sysB ''za'' ''REQ-1'') = 10"
proof -
  have r: "reachable sysB (withRequest sysB ''za'' ''REQ-1'')"
    unfolding withRequest_def
    by (rule reachable.create[OF reachable.start])
       (simp add: sysB_def addZone_def new_ParkingSystem_def)
  from r[unfolded sysB_loaded]
    allocate_adjacent_zone
          [of "withRequest sysB ''za'' ''REQ-1''" "''REQ-1''"
              "fst (createRequest sysB ''v1'' ''za'' ''REQ-1'' 100)"
              "mkZone ''za'' [''zb''] [(''area-a1'', [0, 1])]" "[]" "''zb''" "[]" 2 "[]"
              "''OP-1''" 101 102 storeB None
              "[mkZone ''za'' [''zb''] [(''area-a1'', [0, 1])],
                mkZone ''zb'' [''za''] [(''area-b1'', [2])]]"]
  show ?thesis by (simp add: scenario_defs)
qed

text \<open>
  Claim C2 as stated fails in one point: the penalty is not configurable at construction
  time. The constructor's only argument is the optional initial state, and whatever it is
  the penalty field is 10.
\<close>

theorem penalty_fixed_counterexample:
  "\<forall>store initialState. sys_crossZonePenalty (new_ParkingSystem store initialState) = 10"
  by (simp add: new_penalty)

text \<open>
  Claim C7 as stated fails: on a zone id that is not in the topology the available-slots
  query is the empty list, and allocation reports no available slots.
\<close>

theorem unknown_zone_empty_counterexample:
  "getZone sysA ''zx'' = None \<and> getAvailableSlotsInZone sysA ''zx'' = []
   \<and> fst (allocateSlot (withRequest sysA ''zx'' ''REQ-1'') ''REQ-1'' ''OP-1'' 101 102)
       = failure NoAvailableSlots"
  by (simp add: scenario_defs getZone_def allocateSlot_def canTransition_def selectSlots_def)

theorem unknown_zone_queries_witness:
  "getTotalSlotsInZone (withRequest sysA ''zx'' ''REQ-1'') ''zx'' = 0
   \<and> allocateSlot (withRequest sysA ''zx'' ''REQ-1'') ''REQ-1'' ''OP-1'' 101 102
       = (failure NoAvailableSlots, withRequest sysA ''zx'' ''REQ-1'')"
  using unknown_zone_queries
          [of "withRequest sysA ''zx'' ''REQ-1''" "''zx''" "''REQ-1''"
              "fst (createRequest sysA ''v1'' ''zx'' ''REQ-1'' 100)" "''OP-1''" 101 102]
  by (simp add: scenario_defs)

lemma sysA_allocated_eq:
  "sysA_allocated =
     \<lparr>zones = [(''za'', mkZone ''za'' [] [(''area-a1'', [0, 1])])], vehicles = [],
      requests = [''REQ-1'' \<mapsto>
          \<lparr>r_id = ''REQ-1'', vehicleId = ''v1'', requestedZoneId = ''za'',
           allocatedSlotId = Some ''a1'', allocatedZoneId = Some ''za'',
           state = ALLOCATED, requestTime = 100, allocationTime = Some 102,
           occupiedTime = None, releaseTime = None, isCrossZone = False,
           crossZonePenalty = 0\<rparr>],
      operationHistory = [\<lparr>op_id = ''OP-1'', requestId = ''REQ-1'', slotId = ''a1'',
           previousSlotState = True, previousRequestState = REQUESTED, timestamp = 101\<rparr>],
      pendingRequests = [''REQ-1''], sys_crossZonePenalty = 10,
      slotStore = storeA(0 := mkSlot ''a1'' ''za'' ''area-a1'' False)\<rparr>"
  by (simp add: sysA_allocated_def allocateSlot_def selectSlots_def canTransition_def
        setAvailable_def push_def scenario_defs)

lemma sysA_released_eq:
  "sysA_released =
     \<lparr>zones = [(''za'', mkZone ''za'' [] [(''area-a1'', [0, 1])])], vehicles = [],
      requests = [''REQ-1'' \<mapsto>
          \<lparr>r_id = ''REQ-1'', vehicleId = ''v1'', requestedZoneId = ''za'',
           allocatedSlotId = Some ''a1'', allocatedZoneId = Some ''za'',
           state = RELEASED, requestTime = 100, allocationTime = Some 102,
           occupiedTime = Some 103, releaseTime = Some 104, isCrossZone = False,
           crossZonePenalty = 0\<rparr>],
      operationHistory = [\<lparr>op_id = ''OP-1'', requestId = ''REQ-1'', slotId = ''a1'',
           previousSlotState = True, previousRequestState = REQUESTED, timestamp = 101\<rparr>],
      pendingRequests = [''REQ-1''], sys_crossZonePenalty = 10,
      slotStore = storeA(0 := mkSlot ''a1'' ''za'' ''area-a1'' True)\<rparr>"
  by (simp add: sysA_released_def sysA_occupied_def sysA_allocated_eq occupySlot_def
        releaseSlot_def freeAllocatedSlot_def findSlot_def canTransition_def
        setAvailable_def mkZone_def mkSlot_def storeA_def Let_def)

theorem invalid_transition_leaves_state_witness:
  "allocateSlot sysA_released ''REQ-1'' ''OP-2'' 105 106
       = (failure (InvalidTransition RELEASED ALLOCATED), sysA_released)
   \<and> occupySlot sysA_released ''REQ-1'' 107
       = (failure (InvalidTransition RELEASED OCCUPIED), sysA_released)
   \<and> releaseSlot sysA_released ''REQ-1'' 107
       = (failure (InvalidTransition RELEASED RELEASED), sysA_released)
   \<and> cancelRequest sysA_released ''REQ-1''
       = (failure (InvalidTransition RELEASED CANCELLED), sysA_released)
   \<and> releaseSlot sysA_allocated ''REQ-1'' 103
       = (failure (InvalidTransition ALLOCATED RELEASED), sysA_allocated)
   \<and> state (the (requests sysA_allocated ''REQ-1'')) = ALLOCATED"
  using invalid_transition_leaves_state
          [of sysA_released "''REQ-1''" "the (requests sysA_released ''REQ-1'')" "''OP-2''" 105 106 107]
        invalid_transition_leaves_state
          [of sysA_allocated "''REQ-1''" "the (requests sysA_allocated ''REQ-1'')" "''OP-2''" 105 106 103]
  by (simp add: sysA_released_eq sysA_allocated_eq)

theorem rollback_pops_and_restores_witness:
  "rollback sysA_allocated 5 =
     (\<lparr>rb_success = True, rb_message = RolledBack 1, rolledBack = 1\<rparr>,
      (withRequest sysA ''za'' ''REQ-1'')\<lparr>slotStore := storeA(0 := mkSlot ''a1'' ''za'' ''area-a1'' True)\<rparr>)"
  using rollback_pops_and_restores[of 5 sysA_allocated]
  by (simp add: sysA_allocated_eq undoOperation_def restoreRequest_def restoreSlot_def
        setAvailable_def findSlot_def scenario_defs)

lemma sysA_two_eq:
  "sysA_two =
     \<lparr>zones = [(''za'', mkZone ''za'' [] [(''area-a1'', [0, 1])])], vehicles = [],
      requests = [''REQ-1'' \<mapsto>
          \<lparr>r_id = ''REQ-1'', vehicleId = ''v1'', requestedZoneId = ''za'',
           allocatedSlotId = Some ''a1'', allocatedZoneId = Some ''za'',
           state = ALLOCATED, requestTime = 100, allocationTime = Some 102,
           occupiedTime = None, releaseTime = None, isCrossZone = False,
           crossZonePenalty = 0\<rparr>,
         ''REQ-2'' \<mapsto>
          \<lparr>r_id = ''REQ-2'', vehicleId = ''v2'', requestedZoneId = ''za'',
           allocatedSlotId = Some ''a2'', allocatedZoneId = Some ''za'',
           state = ALLOCATED, requestTime = 105, allocationTime = Some 107,
           occupiedTime = None, releaseTime = None, isCrossZone = False,
           crossZonePenalty = 0\<rparr>],
      operationHistory = [\<lparr>op_id = ''OP-1'', requestId = ''REQ-1'', slotId = ''a1'',
           previousSlotState = True, previousRequestState = REQUESTED, timestamp = 101\<rparr>,
          \<lparr>op_id = ''OP-2'', requestId = ''REQ-2'', slotId = ''a2'',
           previousSlotState = True, previousRequestState = REQUESTED, timestamp = 106\<rparr>],
      pendingRequests = [''REQ-1'', ''REQ-2''], sys_crossZonePenalty = 10,
      slotStore = storeA(0 := mkSlot ''a1'' ''za'' ''area-a1'' False,
                         1 := mkSlot ''a2'' ''za'' ''area-a1'' False)\<rparr>"
  by (simp add: sysA_two_def sysA_allocated_eq createRequest_def allocateSlot_def selectSlots_def
        canTransition_def setAvailable_def push_def getAvailableSlotsInZone_def mkZone_def
        mkSlot_def storeA_def Let_def)

lemma sysA_loaded: "sysA = loadTopology storeA [mkZone ''za'' [] [(''area-a1'', [0, 1])]]"
  by (simp add: sysA_def loadTopology_def)

theorem allocation_invariant_reachable_witness:
  "(\<exists>slot zone area. findSlot sysA_two ''a2'' = Some (slot, zone, area)
        \<and> \<not> isAvailable (slotStore sysA_two slot))
   \<and> allocatedSlotId (the (requests sysA_two ''REQ-1''))
       \<noteq> allocatedSlotId (the (requests sysA_two ''REQ-2''))"
proof -
  have u: "uniqueSlotIds (loadTopology storeA [mkZone ''za'' [] [(''area-a1'', [0, 1])]])"
    by (simp add: uniqueSlotIds_def uniqueIds_def refsOf_def zoneSlotRefs_def loadTopology_def
          addZone_def new_ParkingSystem_def mkZone_def storeA_def mkSlot_def)
  have r0: "reachable sysA sysA" by (rule reachable.start)
  have r1: "reachable sysA (withRequest sysA ''za'' ''REQ-1'')"
    unfolding withRequest_def
    by (rule reachable.create[OF r0]) (simp add: sysA_def addZone_def new_ParkingSystem_def)
  have r2: "reachable sysA sysA_allocated"
    unfolding sysA_allocated_def by (rule reachable.allocate[OF r1])
  have r3: "reachable sysA (snd (createRequest sysA_allocated ''v2'' ''za'' ''REQ-2'' 105))"
    by (rule reachable.create[OF r2]) (simp add: sysA_allocated_eq)
  have r4: "reachable sysA sysA_two"
    unfolding sysA_two_def by (rule reachable.allocate[OF r3])
  from allocation_invariant_reachable[OF u r4[unfolded sysA_loaded]]
  have a: "\<forall>rid req. requests sysA_two rid = Some req \<and> (state req = ALLOCATED \<or> state req = OCCUPIED) \<longrightarrow>
            (\<exists>sid zid slot zone area.
                allocatedSlotId req = Some sid \<and> allocatedZoneId req = Some zid
                \<and> findSlot sysA_two sid = Some (slot, zone, area)
                \<and> \<not> isAvailable (slotStore sysA_two slot))"
    and b: "\<forall>rid1 req1 rid2 req2.
             requests sysA_two rid1 = Some req1 \<and> (state req1 = ALLOCATED \<or> state req1 = OCCUPIED)
             \<and> requests sysA_two rid2 = Some req2 \<and> (state req2 = ALLOCATED \<or> state req2 = OCCUPIED)
             \<and> rid1 \<noteq> rid2
             \<longrightarrow> allocatedSlotId req1 \<noteq> allocatedSlotId req2"
    by blast+
  from a[rule_format, of "''REQ-2''" "the (requests sysA_two ''REQ-2'')"]
  have "\<exists>slot zone area. findSlot sysA_two ''a2'' = Some (slot, zone, area)
        \<and> \<not> isAvailable (slotStore sysA_two slot)"
    by (simp add: sysA_two_eq)
  moreover from b[rule_format, of "''REQ-1''" "the (requests sysA_two ''REQ-1'')"
                    "''REQ-2''" "the (requests sysA_two ''REQ-2'')"]
  have "allocatedSlotId (the (requests sysA_two ''REQ-1''))
       \<noteq> allocatedSlotId (the (requests sysA_two ''REQ-2''))"
    by (simp add: sysA_two_eq)
  ultimately show ?thesis by blast
qed

lemma sysA_twoRequests_allocated:
  "allocateAll sysA_twoRequests twoCalls =
    Some \<lparr>zones = [(''za'', mkZone ''za'' [] [(''area-a1'', [0, 1])])], vehicles = [],
      requests = [''REQ-1'' \<mapsto>
          \<lparr>r_id = ''REQ-1'', vehicleId = ''v1'', requestedZoneId = ''za'',
           allocatedSlotId = Some ''a1'', allocatedZoneId = Some ''za'',
           state = ALLOCATED, requestTime = 100, allocationTime = Some 102,
           occupiedTime = None, releaseTime = None, isCrossZone = False,
           crossZonePenalty = 0\<rparr>,
         ''REQ-2'' \<mapsto>
          \<lparr>r_id = ''REQ-2'', vehicleId = ''v2'', requestedZoneId = ''za'',
           allocatedSlotId = Some ''a2'', allocatedZoneId = Some ''za'',
           state = ALLOCATED, requestTime = 105, allocationTime = Some 107,
           occupiedTime = None, releaseTime = None, isCrossZone = False,
           crossZonePenalty = 0\<rparr>],
      operationHistory = [\<lparr>op_id = ''OP-1'', requestId = ''REQ-1'', slotId = ''a1'',
           previousSlotState = True, previousRequestState = REQUESTED, timestamp = 101\<rparr>,
          \<lparr>op_id = ''OP-2'', requestId = ''REQ-2'', slotId = ''a2'',
           previousSlotState = True, previousRequestState = REQUESTED, timestamp = 106\<rparr>],
      pendingRequests = [''REQ-1'', ''REQ-2''], sys_crossZonePenalty = 10,
      slotStore = storeA(0 := mkSlot ''a1'' ''za'' ''area-a1'' False,
                         1 := mkSlot ''a2'' ''za'' ''area-a1'' False)\<rparr>"
  by (simp add: sysA_twoRequests_def twoCalls_def allocateSlot_def selectSlots_def
        canTransition_def setAvailable_def push_def scenario_defs)

theorem rollback_then_reallocate_witness:
  "rollback (the (allocateAll sysA_twoRequests twoCalls)) 2
     = (\<lparr>rb_success = True, rb_message = RolledBack 2, rolledBack = 2\<rparr>, sysA_twoRequests)
   \<and> allocateAll (snd (rollback (the (allocateAll sysA_twoRequests twoCalls)) 2)) twoCalls
       = allocateAll sysA_twoRequests twoCalls"
proof -
  have u: "uniqueSlotIds (loadTopology storeA [mkZone ''za'' [] [(''area-a1'', [0, 1])]])"
    by (simp add: uniqueSlotIds_def uniqueIds_def refsOf_def zoneSlotRefs_def loadTopology_def
          addZone_def new_ParkingSystem_def mkZone_def storeA_def mkSlot_def)
  have r0: "reachable sysA sysA" by (rule reachable.start)
  have r1: "reachable sysA (withRequest sysA ''za'' ''REQ-1'')"
    unfolding withRequest_def
    by (rule reachable.create[OF r0]) (simp add: sysA_def addZone_def new_ParkingSystem_def)
  have r2: "reachable sysA sysA_twoRequests"
    unfolding sysA_twoRequests_def
    by (rule reachable.create[OF r1])
       (simp add: withRequest_def createRequest_def Let_def sysA_def addZone_def new_ParkingSystem_def)
  have a: "allocateAll sysA_twoRequests twoCalls = Some (the (allocateAll sysA_twoRequests twoCalls))"
    by (simp add: sysA_twoRequests_allocated)
  from rollback_then_reallocate[OF u r2[unfolded sysA_loaded] a] a
  show ?thesis by (simp add: twoCalls_def)
qed

lemma sysA_occupied_eq:
  "sysA_occupied =
     \<lparr>zones = [(''za'', mkZone ''za'' [] [(''area-a1'', [0, 1])])], vehicles = [],
      requests = [''REQ-1'' \<mapsto>
          \<lparr>r_id = ''REQ-1'', vehicleId = ''v1'', requestedZoneId = ''za'',
           allocatedSlotId = Some ''a1'', allocatedZoneId = Some ''za'',
           state = OCCUPIED, requestTime = 100, allocationTime = Some 102,
           occupiedTime = Some 103, releaseTime = None, isCrossZone = False,
           crossZonePenalty = 0\<rparr>],
      operationHistory = [\<lparr>op_id = ''OP-1'', requestId = ''REQ-1'', slotId = ''a1'',
           previousSlotState = True, previousRequestState = REQUESTED, timestamp = 101\<rparr>],
      pendingRequests = [''REQ-1''], sys_crossZonePenalty = 10,
      slotStore = storeA(0 := mkSlot ''a1'' ''za'' ''area-a1'' False)\<rparr>"
  by (simp add: sysA_occupied_def sysA_allocated_eq occupySlot_def canTransition_def Let_def)

lemma sysA_rolledBack_eq:
  "sysA_rolledBack =
     \<lparr>zones = [(''za'', mkZone ''za'' [] [(''area-a1'', [0, 1])])], vehicles = [],
      requests = [''REQ-1'' \<mapsto>
          \<lparr>r_id = ''REQ-1'', vehicleId = ''v1'', requestedZoneId = ''za'',
           allocatedSlotId = None, allocatedZoneId = None,
           state = REQUESTED, requestTime = 100, allocationTime = None,
           occupiedTime = Some 103, releaseTime = None, isCrossZone = False,
           crossZonePenalty = 0\<rparr>],
      operationHistory = [],
      pendingRequests = [''REQ-1''], sys_crossZonePenalty = 10,
      slotStore = storeA(0 := mkSlot ''a1'' ''za'' ''area-a1'' True)\<rparr>"
  using rollback_one[of sysA_occupied "[]"
          "\<lparr>op_id = ''OP-1'', requestId = ''REQ-1'', slotId = ''a1'',
           previousSlotState = True, previousRequestState = REQUESTED, timestamp = 101\<rparr>"]
  by (simp add: sysA_rolledBack_def sysA_occupied_eq undoOperation_def restoreSlot_def
        restoreRequest_def setAvailable_def findSlot_def mkZone_def mkSlot_def storeA_def)

text \<open>
  Claim C8 as stated fails when something happened to a request after its allocation: the
  request \<open>REQ-1\<close> is \<open>OCCUPIED\<close>; after \<open>rollback(1)\<close> it is \<open>REQUESTED\<close> and its slot is
  free, so the same allocation is legal again, and running it leaves the request
  \<open>ALLOCATED\<close>, not \<open>OCCUPIED\<close>.
\<close>

theorem rollback_reallocate_counterexample:
  "state (the (requests sysA_occupied ''REQ-1'')) = OCCUPIED
   \<and> state (the (requests sysA_rolledBack ''REQ-1'')) = REQUESTED
   \<and> isAvailable (slotStore sysA_rolledBack 0)
   \<and> success (fst (allocateSlot sysA_rolledBack ''REQ-1'' ''OP-1'' 101 102))
   \<and> state (the (requests sysA_reallocated ''REQ-1'')) = ALLOCATED"
  by (simp add: sysA_reallocated_def sysA_occupied_eq sysA_rolledBack_eq allocateSlot_def
        selectSlots_def canTransition_def setAvailable_def push_def getAvailableSlotsInZone_def
        mkZone_def mkSlot_def storeA_def Let_def)

theorem rollback_ignores_current_state_witness:
  "\<not> isAvailable (slotStore sysA_occupied 0)
   \<and> state (the (requests sysA_occupied ''REQ-1'')) = OCCUPIED
   \<and> isAvailable (slotStore (snd (rollback sysA_occupied 1)) 0)
   \<and> map_option fst (findSlot (snd (rollback sysA_occupied 1)) ''a1'') = Some 0
   \<and> requests (snd (rollback sysA_occupied 1)) ''REQ-1'' =
        Some \<lparr>r_id = ''REQ-1'', vehicleId = ''v1'', requestedZoneId = ''za'',
              allocatedSlotId = None, allocatedZoneId = None,
              state = REQUESTED, requestTime = 100, allocationTime = None,
              occupiedTime = Some 103, releaseTime = None, isCrossZone = False,
              crossZonePenalty = 0\<rparr>
   \<and> state (the (requests sysA_released ''REQ-1'')) = RELEASED
   \<and> requests (snd (rollback sysA_released 1)) ''REQ-1'' =
        Some \<lparr>r_id = ''REQ-1'', vehicleId = ''v1'', requestedZoneId = ''za'',
              allocatedSlotId = None, allocatedZoneId = None,
              state = REQUESTED, requestTime = 100, allocationTime = None,
              occupiedTime = Some 103, releaseTime = Some 104, isCrossZone = False,
              crossZonePenalty = 0\<rparr>"
proof -
  have r0: "reachable sysA sysA" by (rule reachable.start)
  have r1: "reachable sysA (withRequest sysA ''za'' ''REQ-1'')"
    unfolding withRequest_def
    by (rule reachable.create[OF r0]) (simp add: sysA_def addZone_def new_ParkingSystem_def)
  have r2: "reachable sysA sysA_allocated"
    unfolding sysA_allocated_def by (rule reachable.allocate[OF r1])
  have r3: "reachable sysA sysA_occupied"
    unfolding sysA_occupied_def by (rule reachable.occupy[OF r2])
  have r4: "reachable sysA sysA_released"
    unfolding sysA_released_def by (rule reachable.release[OF r3])
  have h3: "operationHistory sysA_occupied = [] @
      [\<lparr>op_id = ''OP-1'', requestId = ''REQ-1'', slotId = ''a1'',
        previousSlotState = True, previousRequestState = REQUESTED, timestamp = 101\<rparr>]"
    by (simp add: sysA_occupied_eq)
  have h4: "operationHistory sysA_released = [] @
      [\<lparr>op_id = ''OP-1'', requestId = ''REQ-1'', slotId = ''a1'',
        previousSlotState = True, previousRequestState = REQUESTED, timestamp = 101\<rparr>]"
    by (simp add: sysA_released_eq)
  from rollback_ignores_current_state[OF r3[unfolded sysA_loaded] h3]
  have occ: "isAvailable (slotStore (snd (rollback sysA_occupied 1)) 0)
     \<and> map_option fst (findSlot (snd (rollback sysA_occupied 1)) ''a1'') = Some 0
     \<and> requests (snd (rollback sysA_occupied 1)) ''REQ-1'' =
        Some \<lparr>r_id = ''REQ-1'', vehicleId = ''v1'', requestedZoneId = ''za'',
              allocatedSlotId = None, allocatedZoneId = None,
              state = REQUESTED, requestTime = 100, allocationTime = None,
              occupiedTime = Some 103, releaseTime = None, isCrossZone = False,
              crossZonePenalty = 0\<rparr>"
    by (auto simp: sysA_occupied_eq findSlot_def mkZone_def mkSlot_def storeA_def)
  from rollback_ignores_current_state[OF r4[unfolded sysA_loaded] h4]
  have rel: "requests (snd (rollback sysA_released 1)) ''REQ-1'' =
        Some \<lparr>r_id = ''REQ-1'', vehicleId = ''v1'', requestedZoneId = ''za'',
              allocatedSlotId = None, allocatedZoneId = None,
              state = REQUESTED, requestTime = 100, allocationTime = None,
              occupiedTime = Some 103, releaseTime = Some 104, isCrossZone = False,
              crossZonePenalty = 0\<rparr>"
    by (auto simp: sysA_released_eq findSlot_def mkZone_def mkSlot_def storeA_def)
  from occ rel show ?thesis
    by (simp add: sysA_occupied_eq sysA_released_eq mkSlot_def storeA_def)
qed








end
